theory Spec2Isabelle
  imports Complex_Main
begin

section \<open>Numbers, errors and matrices\<close>

text \<open>
  The program \<^verbatim>\<open>make_27_star_svg.py\<close> rewrites an SVG document: it deletes a list of
  elements and stamps 27 rotated copies of a template element under the template's parent.

  Python floats are modelled by the real numbers: arithmetic is exact and unbounded, so
  rounding, overflow, infinities and NaN are outside the model. Strings are lists of
  8-bit characters, read as the code points U+0000 to U+00FF.

  Every \<^verbatim>\<open>raise ValueError(...)\<close> of the source and both \<^verbatim>\<open>return 1\<close> exits of
  \<^verbatim>\<open>main\<close> are values of the type \<open>error\<close>; a function that can raise returns
  \<open>error + 'a\<close>.
\<close>

datatype error =
    FloatConversion string          \<comment> \<open>\<^verbatim>\<open>float(p)\<close>: could not convert string to float\<close>
  | NonFiniteFloat string           \<comment> \<open>\<^verbatim>\<open>float(p)\<close> is an infinity or NaN: Python returns it,
                                        the real-number model cannot represent it\<close>
  | MatrixExpects6 nat              \<comment> \<open>matrix expects 6 values, got n\<close>
  | TranslateExpects1or2 nat        \<comment> \<open>translate expects 1 or 2 values, got n\<close>
  | RotateExpects1or3 nat           \<comment> \<open>rotate expects 1 or 3 values, got n\<close>
  | ScaleExpects1or2 nat            \<comment> \<open>scale expects 1 or 2 values, got n\<close>
  | UnsupportedTransformCmd string  \<comment> \<open>Unsupported transform cmd: cmd\<close>
  | NonInvertible                   \<comment> \<open>Non-invertible transform matrix\<close>
  | TemplateNotFound                \<comment> \<open>ERROR: template not found; return 1\<close>
  | TemplateHasNoParent             \<comment> \<open>ERROR: template has no parent; return 1\<close>
  | NotAChild                       \<comment> \<open>\<^verbatim>\<open>par.remove(elem)\<close>: elem is not a child of par\<close>

text \<open>
  A matrix is the source's list of three rows of three floats,
  \<^verbatim>\<open>[[a, c, e], [b, d, f], [0, 0, 1]]\<close>.
\<close>

type_synonym row = "real \<times> real \<times> real"
type_synonym mat = "row \<times> row \<times> row"

definition mat_identity :: mat where
  "mat_identity = ((1, 0, 0), (0, 1, 0), (0, 0, 1))"

fun mat_mul :: "mat \<Rightarrow> mat \<Rightarrow> mat" where
  "mat_mul ((a00, a01, a02), (a10, a11, a12), a2)
           ((b00, b01, b02), (b10, b11, b12), (b20, b21, b22)) =
     ((a00 * b00 + a01 * b10 + a02 * b20,
       a00 * b01 + a01 * b11 + a02 * b21,
       a00 * b02 + a01 * b12 + a02 * b22),
      (a10 * b00 + a11 * b10 + a12 * b20,
       a10 * b01 + a11 * b11 + a12 * b21,
       a10 * b02 + a11 * b12 + a12 * b22),
      (0, 0, 1))"

definition mat_translate :: "real \<Rightarrow> real \<Rightarrow> mat" where
  "mat_translate tx ty = ((1, 0, tx), (0, 1, ty), (0, 0, 1))"

definition radians :: "real \<Rightarrow> real" where
  "radians deg = deg * pi / 180"

definition mat_rotate :: "real \<Rightarrow> mat" where [code del]:
  "mat_rotate angle_deg =
     (let a = radians angle_deg; c = cos a; s = sin a
      in ((c, - s, 0), (s, c, 0), (0, 0, 1)))"

fun mat_apply :: "mat \<Rightarrow> real \<Rightarrow> real \<Rightarrow> real \<times> real" where
  "mat_apply ((m00, m01, m02), (m10, m11, m12), m2) x y =
     (m00 * x + m01 * y + m02, m10 * x + m11 * y + m12)"

fun mat_inv :: "mat \<Rightarrow> error + mat" where
  "mat_inv ((a, c, e), (b, d, f), m2) =
     (let det = a * d - b * c in
      if \<bar>det\<bar> < 1 / 10 ^ 12 then Inl NonInvertible
      else
        let inv_det = 1 / det;
            ai = d * inv_det;
            bi = - b * inv_det;
            ci = - c * inv_det;
            di = a * inv_det;
            ei = - (ai * e + ci * f);
            fi = - (bi * e + di * f)
        in Inr ((ai, ci, ei), (bi, di, fi), (0, 0, 1)))"

section \<open>Characters and number lists\<close>

text \<open>
  \<open>is_space\<close> is Python's Unicode whitespace (\<^verbatim>\<open>str.isspace\<close>, the regex class
  \<^verbatim>\<open>\s\<close>, the default of \<^verbatim>\<open>str.strip\<close>) below U+0100; \<open>is_alpha\<close> is the regex class
  \<^verbatim>\<open>[a-zA-Z]\<close>.
\<close>

definition is_space :: "char \<Rightarrow> bool" where
  "is_space c \<longleftrightarrow> c \<in> set [CHR 0x09, CHR 0x0A, CHR 0x0B, CHR 0x0C, CHR 0x0D,
                              CHR 0x1C, CHR 0x1D, CHR 0x1E, CHR 0x1F, CHR 0x20,
                              CHR 0x85, CHR 0xA0]"

definition is_alpha :: "char \<Rightarrow> bool" where
  "is_alpha c \<longleftrightarrow> c \<in> set ''abcdefghijklmnopqrstuvwxyzABCDEFGHIJKLMNOPQRSTUVWXYZ''"

definition is_digit :: "char \<Rightarrow> bool" where
  "is_digit c \<longleftrightarrow> c \<in> set ''0123456789''"

text \<open>\<^verbatim>\<open>str.lower\<close> on the letters A to Z, the only upper-case characters a command name
  can hold.\<close>

definition lower_char :: "char \<Rightarrow> char" where
  "lower_char c =
     (case map_of (zip ''ABCDEFGHIJKLMNOPQRSTUVWXYZ'' ''abcdefghijklmnopqrstuvwxyz'') c of
        Some l \<Rightarrow> l | None \<Rightarrow> c)"

definition lower :: "string \<Rightarrow> string" where
  "lower s = map lower_char s"

definition strip :: "string \<Rightarrow> string" where
  "strip s = rev (dropWhile is_space (rev (dropWhile is_space s)))"

subsection \<open>\<^verbatim>\<open>float(p)\<close> on decimal literals\<close>

definition digit_val :: "char \<Rightarrow> nat" where
  "digit_val c = (case map_of (zip ''0123456789'' [0, 1, 2, 3, 4, 5, 6, 7, 8, 9]) c of
                    Some d \<Rightarrow> d | None \<Rightarrow> 0)"

text \<open>The value of a digit string, most significant digit first.\<close>

definition digits_val :: "string \<Rightarrow> nat" where
  "digits_val ds = foldl (\<lambda>acc c. 10 * acc + digit_val c) 0 ds"

text \<open>
  \<^verbatim>\<open>digitpart ::= digit (["_"] digit)*\<close>: digits with single underscores between them.
  \<open>digitpart\<close> returns the digits without the underscores.
\<close>

fun digitpart_ok :: "string \<Rightarrow> bool" where
  "digitpart_ok [] = False"
| "digitpart_ok [c] = is_digit c"
| "digitpart_ok (c # d # cs) =
     (is_digit c \<and> (if d = CHR ''_'' then digitpart_ok cs else digitpart_ok (d # cs)))"

definition digitpart :: "string \<Rightarrow> string option" where
  "digitpart s = (if digitpart_ok s then Some (filter is_digit s) else None)"

text \<open>
  \<^verbatim>\<open>number ::= [digitpart] "." digitpart | digitpart ["."]\<close>. The result is the pair of
  the digits before and after the point.
\<close>

definition number_parts :: "string \<Rightarrow> (string \<times> string) option" where
  "number_parts s =
     (let ip = takeWhile (\<lambda>c. c \<noteq> CHR ''.'') s;
          r = dropWhile (\<lambda>c. c \<noteq> CHR ''.'') s
      in case r of
           [] \<Rightarrow> map_option (\<lambda>i. (i, [])) (digitpart ip)
         | _ # fp \<Rightarrow>
             if fp = [] then map_option (\<lambda>i. (i, [])) (digitpart ip)
             else if ip = [] then map_option (\<lambda>f. ([], f)) (digitpart fp)
             else (case (digitpart ip, digitpart fp) of
                     (Some i, Some f) \<Rightarrow> Some (i, f) | _ \<Rightarrow> None))"

text \<open>\<^verbatim>\<open>exponent ::= ("e" | "E") ["+" | "-"] digitpart\<close>, after the letter.\<close>

definition exponent_val :: "string \<Rightarrow> int option" where
  "exponent_val s =
     (case s of
        [] \<Rightarrow> None
      | c # cs \<Rightarrow>
          if c = CHR ''-'' then map_option (\<lambda>d. - int (digits_val d)) (digitpart cs)
          else if c = CHR ''+'' then map_option (\<lambda>d. int (digits_val d)) (digitpart cs)
          else map_option (\<lambda>d. int (digits_val d)) (digitpart s))"

definition pow10 :: "int \<Rightarrow> real" where
  "pow10 k = (if 0 \<le> k then 10 ^ nat k else 1 / 10 ^ nat (- k))"

definition is_e :: "char \<Rightarrow> bool" where
  "is_e c \<longleftrightarrow> c = CHR ''e'' \<or> c = CHR ''E''"

definition floatnumber :: "string \<Rightarrow> real option" where
  "floatnumber s =
     (let m = takeWhile (\<lambda>c. \<not> is_e c) s;
          r = dropWhile (\<lambda>c. \<not> is_e c) s
      in case number_parts m of
           None \<Rightarrow> None
         | Some (ip, fp) \<Rightarrow>
             (let v = real (digits_val (ip @ fp)) / 10 ^ length fp
              in case r of
                   [] \<Rightarrow> Some v
                 | _ # ex \<Rightarrow> map_option (\<lambda>k. v * pow10 k) (exponent_val ex)))"

text \<open>
  \<^verbatim>\<open>float(p)\<close> for a string without surrounding whitespace: an optional sign, then a
  decimal number or one of \<^verbatim>\<open>inf\<close>, \<^verbatim>\<open>infinity\<close>, \<^verbatim>\<open>nan\<close> in any letter case.
\<close>

definition py_float :: "string \<Rightarrow> error + real" where
  "py_float s =
     (let neg = (s \<noteq> [] \<and> hd s = CHR ''-'');
          r = (if s \<noteq> [] \<and> (hd s = CHR ''-'' \<or> hd s = CHR ''+'') then tl s else s)
      in if lower r \<in> set [''inf'', ''infinity'', ''nan''] then Inl (NonFiniteFloat s)
         else case floatnumber r of
                None \<Rightarrow> Inl (FloatConversion s)
              | Some v \<Rightarrow> Inr (if neg then - v else v))"

subsection \<open>\<^verbatim>\<open>parse_number_list\<close>\<close>

definition is_sep :: "char \<Rightarrow> bool" where
  "is_sep c \<longleftrightarrow> c = CHR '','' \<or> is_space c"

text \<open>\<^verbatim>\<open>re.split(r"[,\s]+", s)\<close>: the pieces between the runs of separators, empty pieces
  at both ends included.\<close>

function re_split :: "string \<Rightarrow> string list" where
  "re_split s =
     (let tok = takeWhile (\<lambda>c. \<not> is_sep c) s;
          r = dropWhile (\<lambda>c. \<not> is_sep c) s
      in if r = [] then [tok] else tok # re_split (dropWhile is_sep r))"
  by pat_completeness auto
termination
proof (relation "measure length")
  show "wf (measure length)" by simp
next
  fix s :: string and tok r
  assume r: "r = dropWhile (\<lambda>c. \<not> is_sep c) s" and ne: "r \<noteq> []"
  have "length (dropWhile is_sep r) \<le> length r"
    by (rule length_dropWhile_le)
  moreover have "is_sep (hd r)"
    using r ne hd_dropWhile [of "\<lambda>c. \<not> is_sep c" s] by auto
  then have "dropWhile is_sep r = dropWhile is_sep (tl r)"
    using ne by (cases r) auto
  then have "length (dropWhile is_sep r) < length r"
    using ne length_dropWhile_le [of is_sep "tl r"] by (cases r) auto
  moreover have "length r \<le> length s"
    unfolding r by (rule length_dropWhile_le)
  ultimately show "(dropWhile is_sep r, s) \<in> measure length" by simp
qed

declare re_split.simps [simp del]

text \<open>The list comprehension \<^verbatim>\<open>[float(p) for p in parts if p]\<close> stops at the first part
  that \<^verbatim>\<open>float\<close> refuses.\<close>

fun floats :: "string list \<Rightarrow> error + real list" where
  "floats [] = Inr []"
| "floats (p # ps) =
     (case py_float p of
        Inl e \<Rightarrow> Inl e
      | Inr v \<Rightarrow> (case floats ps of Inl e \<Rightarrow> Inl e | Inr vs \<Rightarrow> Inr (v # vs)))"

definition parse_number_list :: "string \<Rightarrow> error + real list" where
  "parse_number_list s = floats (filter (\<lambda>p. p \<noteq> []) (re_split (strip s)))"

section \<open>The transform parser\<close>

text \<open>
  \<^verbatim>\<open>_transform_cmd_re.findall(transform)\<close> for the pattern
  \<^verbatim>\<open>([a-zA-Z]+)\s*\(([^)]*)\)\<close>: the scan tries each position from the left. At a letter
  the pattern takes the longest run of letters, then the longest run of whitespace, then
  needs an opening parenthesis, every character up to the next closing parenthesis, and
  that closing parenthesis. Giving back letters or whitespace never helps (the next
  character is then a letter or whitespace, not a parenthesis), so a position where this
  fails is skipped and the scan moves one character on. After a match the scan goes on
  behind the closing parenthesis.
\<close>

function transform_cmd_findall :: "string \<Rightarrow> (string \<times> string) list" where
  "transform_cmd_findall [] = []"
| "transform_cmd_findall (c # cs) =
     (if is_alpha c then
        (let cmd = takeWhile is_alpha (c # cs);
             r1 = dropWhile is_space (dropWhile is_alpha (c # cs))
         in case r1 of
              [] \<Rightarrow> transform_cmd_findall cs
            | p # r2 \<Rightarrow>
                if p = CHR ''('' then
                  (let argstr = takeWhile (\<lambda>x. x \<noteq> CHR '')'') r2;
                       r3 = dropWhile (\<lambda>x. x \<noteq> CHR '')'') r2
                   in case r3 of
                        [] \<Rightarrow> transform_cmd_findall cs
                      | _ # r4 \<Rightarrow> (cmd, argstr) # transform_cmd_findall r4)
                else transform_cmd_findall cs)
      else transform_cmd_findall cs)"
  by pat_completeness auto
termination
proof (relation "measure length"; clarsimp)
  fix cs r2 r4 :: string and x :: char
  assume r2: "CHR ''('' # r2 = dropWhile is_space (dropWhile is_alpha cs)"
    and r4: "x # r4 = dropWhile (\<lambda>x. x \<noteq> CHR '')'') r2"
  have "length r4 < length (dropWhile (\<lambda>x. x \<noteq> CHR '')'') r2)"
    using r4 [symmetric] by simp
  also have "\<dots> \<le> length r2" by (rule length_dropWhile_le)
  also have "length r2 < length (dropWhile is_space (dropWhile is_alpha cs))"
    using r2 [symmetric] by simp
  also have "\<dots> \<le> length (dropWhile is_alpha cs)" by (rule length_dropWhile_le)
  also have "\<dots> \<le> length cs" by (rule length_dropWhile_le)
  finally show "length r4 < Suc (length cs)" by simp
qed

declare transform_cmd_findall.simps [simp del]

text \<open>
  The body of the loop of \<^verbatim>\<open>parse_transform\<close> behind \<^verbatim>\<open>vals = parse_number_list(argstr)\<close>:
  the matrix of one command, or the \<^verbatim>\<open>ValueError\<close> it raises.
\<close>

definition command_matrix :: "string \<Rightarrow> real list \<Rightarrow> error + mat" where
  "command_matrix cmd vals =
     (let c = lower cmd in
      if c = ''matrix'' then
        (case vals of
           [a, b, cc, d, e, f] \<Rightarrow> Inr ((a, cc, e), (b, d, f), (0, 0, 1))
         | _ \<Rightarrow> Inl (MatrixExpects6 (length vals)))
      else if c = ''translate'' then
        (case vals of
           [tx] \<Rightarrow> Inr (mat_translate tx 0)
         | [tx, ty] \<Rightarrow> Inr (mat_translate tx ty)
         | _ \<Rightarrow> Inl (TranslateExpects1or2 (length vals)))
      else if c = ''rotate'' then
        (case vals of
           [ang] \<Rightarrow> Inr (mat_rotate ang)
         | [ang, cx, cy] \<Rightarrow>
             Inr (mat_mul (mat_translate cx cy)
                    (mat_mul (mat_rotate ang) (mat_translate (- cx) (- cy))))
         | _ \<Rightarrow> Inl (RotateExpects1or3 (length vals)))
      else if c = ''scale'' then
        (case vals of
           [s] \<Rightarrow> Inr ((s, 0, 0), (0, s, 0), (0, 0, 1))
         | [sx, sy] \<Rightarrow> Inr ((sx, 0, 0), (0, sy, 0), (0, 0, 1))
         | _ \<Rightarrow> Inl (ScaleExpects1or2 (length vals)))
      else Inl (UnsupportedTransformCmd cmd))"

text \<open>The loop over the commands found: \<^verbatim>\<open>result = mat_mul(result, m)\<close>.\<close>

fun apply_cmds :: "mat \<Rightarrow> (string \<times> string) list \<Rightarrow> error + mat" where
  "apply_cmds result [] = Inr result"
| "apply_cmds result ((cmd, argstr) # rest) =
     (case parse_number_list argstr of
        Inl e \<Rightarrow> Inl e
      | Inr vals \<Rightarrow>
          (case command_matrix cmd vals of
             Inl e \<Rightarrow> Inl e
           | Inr m \<Rightarrow> apply_cmds (mat_mul result m) rest))"

text \<open>The attribute is \<open>None\<close> when the element has no \<^verbatim>\<open>transform\<close> attribute.\<close>

definition parse_transform :: "string option \<Rightarrow> error + mat" where
  "parse_transform transform =
     (case transform of
        None \<Rightarrow> Inr mat_identity
      | Some s \<Rightarrow>
          if s = [] \<or> strip s = [] then Inr mat_identity
          else apply_cmds mat_identity (transform_cmd_findall s))"

text \<open>The determinant \<^verbatim>\<open>det = a*d - b*c\<close> that \<^verbatim>\<open>mat_inv\<close> computes from the two upper rows.\<close>

fun det2 :: "mat \<Rightarrow> real" where
  "det2 ((a, c, e), (b, d, f), m2) = a * d - b * c"

section \<open>String formatting\<close>

text \<open>Decimal digits of a natural number: \<^verbatim>\<open>str(n)\<close>, \<^verbatim>\<open>f"{n}"\<close>.\<close>

definition digit_char :: "nat \<Rightarrow> char" where
  "digit_char d = ''0123456789'' ! (d mod 10)"

fun dec :: "nat \<Rightarrow> string" where
  "dec n = (if n < 10 then [digit_char n] else dec (n div 10) @ [digit_char (n mod 10)])"

declare dec.simps [simp del]

text \<open>\<^verbatim>\<open>f"{i:02d}"\<close> for a non-negative integer: at least two digits, padded with zeros.\<close>

definition fmt_02d :: "nat \<Rightarrow> string" where
  "fmt_02d i = (let s = dec i in replicate (2 - length s) CHR ''0'' @ s)"

text \<open>
  \<^verbatim>\<open>f"{x:.12g}"\<close>. The value is rounded to 12 significant digits, ties to even, which
  gives the digits \<open>m\<close> (\<open>10^11 \<le> m < 10^12\<close>) and the decimal exponent \<open>X\<close> of the rounded
  value. With \<open>-4 \<le> X < 12\<close> the digits are written in fixed notation, otherwise in
  scientific notation with an exponent of at least two digits; trailing zeros of the
  fraction and a trailing point are removed.
\<close>

definition round_half_even :: "real \<Rightarrow> int" where
  "round_half_even x =
     (let f = \<lfloor>x\<rfloor>; r = x - of_int f
      in if r < 1 / 2 then f else if 1 / 2 < r then f + 1 else if even f then f else f + 1)"

fun ndigits :: "nat \<Rightarrow> nat" where
  "ndigits n = (if n < 10 then 1 else Suc (ndigits (n div 10)))"

declare ndigits.simps [simp del]

text \<open>The decimal exponent of a positive number: \<open>10^e \<le> x < 10^(e+1)\<close>.\<close>

definition dec_exponent :: "real \<Rightarrow> int" where
  "dec_exponent x =
     (if 1 \<le> x then int (ndigits (nat \<lfloor>x\<rfloor>)) - 1
      else - int (ndigits (nat (\<lceil>1 / x\<rceil> - 1))))"

definition sig12 :: "real \<Rightarrow> int \<times> int" where
  "sig12 x =
     (let e = dec_exponent x; m = round_half_even (x * pow10 (11 - e))
      in if m = 10 ^ 12 then (10 ^ 11, e + 1) else (m, e))"

definition strip_zeros :: "string \<Rightarrow> string" where
  "strip_zeros ds = rev (dropWhile (\<lambda>c. c = CHR ''0'') (rev ds))"

definition with_point :: "string \<Rightarrow> string \<Rightarrow> string" where
  "with_point ip fp = (if fp = [] then ip else ip @ ''.'' @ fp)"

definition fmt_pos_g12 :: "real \<Rightarrow> string" where
  "fmt_pos_g12 x =
     (let (m, X) = sig12 x; ds = dec (nat m) in
      if X < - 4 \<or> 12 \<le> X then
        with_point (take 1 ds) (strip_zeros (drop 1 ds)) @ ''e'' @
        (if X < 0 then ''-'' else ''+'') @ fmt_02d (nat \<bar>X\<bar>)
      else if X < 0 then
        ''0.'' @ replicate (nat (- X - 1)) CHR ''0'' @ strip_zeros ds
      else
        with_point (take (nat X + 1) ds) (strip_zeros (drop (nat X + 1) ds)))"

definition fmt_g12 :: "real \<Rightarrow> string" where
  "fmt_g12 x =
     (if x = 0 then ''0''
      else if x < 0 then ''-'' @ fmt_pos_g12 (- x)
      else fmt_pos_g12 x)"

text \<open>\<^verbatim>\<open>matrix_to_svg\<close>.\<close>

fun matrix_to_svg :: "mat \<Rightarrow> string" where
  "matrix_to_svg ((a, c, e), (b, d, f), m2) =
     ''matrix('' @ fmt_g12 a @ '' '' @ fmt_g12 b @ '' '' @ fmt_g12 c @ '' '' @
     fmt_g12 d @ '' '' @ fmt_g12 e @ '' '' @ fmt_g12 f @ '')''"

section \<open>The document tree\<close>

text \<open>
  An \<^verbatim>\<open>xml.etree.ElementTree.Element\<close>: tag, attribute dictionary (in insertion order),
  text, tail and children. \<^verbatim>\<open>copy.deepcopy\<close> of an element is the value itself.

  The source refers to elements by object identity (the keys of the parent map,
  \<^verbatim>\<open>par.remove(elem)\<close>, the variable \<^verbatim>\<open>star_parent\<close>). The model refers to an element
  of the document by its path: the child indices from the root down to it.
\<close>

datatype elem =
  Elem (tag: string) (attrib: "(string \<times> string) list") (elem_text: "string option")
       (elem_tail: "string option") (children: "elem list")

type_synonym path = "nat list"

definition get :: "elem \<Rightarrow> string \<Rightarrow> string option" where
  "get e k = map_of (attrib e) k"

text \<open>\<^verbatim>\<open>d[k] = v\<close> on a dictionary: an existing key keeps its place, a new one goes last.\<close>

fun dict_set :: "string \<Rightarrow> string \<Rightarrow> (string \<times> string) list \<Rightarrow> (string \<times> string) list" where
  "dict_set k v [] = [(k, v)]"
| "dict_set k v ((k', v') # kvs) =
     (if k' = k then (k, v) # kvs else (k', v') # dict_set k v kvs)"

fun set_attr :: "elem \<Rightarrow> string \<Rightarrow> string \<Rightarrow> elem" where
  "set_attr (Elem t a x l cs) k v = Elem t (dict_set k v a) x l cs"

fun append_child :: "elem \<Rightarrow> elem \<Rightarrow> elem" where
  "append_child (Elem t a x l cs) c = Elem t a x l (cs @ [c])"

text \<open>\<^verbatim>\<open>root.iter()\<close>: the element and its descendants in document order.\<close>

fun iter :: "elem \<Rightarrow> elem list" where
  "iter (Elem t a x l cs) = Elem t a x l cs # concat (map iter cs)"

text \<open>The element at a path, if the path leads to one.\<close>

fun subtree :: "elem \<Rightarrow> path \<Rightarrow> elem option" where
  "subtree e [] = Some e"
| "subtree e (i # p) =
     (if i < length (children e) then subtree (children e ! i) p else None)"

text \<open>
  \<^verbatim>\<open>find_element_by_id\<close>: the first element of \<^verbatim>\<open>root.iter()\<close> whose \<^verbatim>\<open>id\<close> attribute is
  \<open>elem_id\<close>, as its path; \<open>None\<close> when there is none. \<open>find_in_children cs k\<close> searches
  the children \<open>cs\<close>, the first of which has index \<open>k\<close>.
\<close>

fun find_element_by_id :: "elem \<Rightarrow> string \<Rightarrow> path option"
  and find_in_children :: "elem list \<Rightarrow> nat \<Rightarrow> string \<Rightarrow> path option" where
  "find_element_by_id (Elem t a x l cs) elem_id =
     (if map_of a ''id'' = Some elem_id then Some []
      else find_in_children cs 0 elem_id)"
| "find_in_children [] k elem_id = None"
| "find_in_children (c # cs) k elem_id =
     (case find_element_by_id c elem_id of
        Some p \<Rightarrow> Some (k # p)
      | None \<Rightarrow> find_in_children cs (Suc k) elem_id)"

text \<open>\<^verbatim>\<open>find_all_ids\<close>: the non-empty \<^verbatim>\<open>id\<close> attributes. The Python set is modelled by
  the list of its members; the program only tests membership and adds members.\<close>

definition find_all_ids :: "elem \<Rightarrow> string list" where
  "find_all_ids doc =
     concat (map (\<lambda>e. case get e ''id'' of
                          None \<Rightarrow> []
                        | Some eid \<Rightarrow> if eid = [] then [] else [eid]) (iter doc))"

text \<open>\<^verbatim>\<open>build_parent_map(root).get(elem)\<close>: the parent of the element at a path.\<close>

definition parent_of :: "path \<Rightarrow> path option" where
  "parent_of p = (if p = [] then None else Some (butlast p))"

text \<open>
  \<^verbatim>\<open>par.remove(elem)\<close> for the element at path \<open>p\<close> and its parent: the child is taken
  out of the parent's list of children. \<open>None\<close> stands for the \<^verbatim>\<open>ValueError\<close> of
  \<^verbatim>\<open>remove\<close> when the element is not there.
\<close>

fun remove_at :: "elem \<Rightarrow> path \<Rightarrow> elem option" where
  "remove_at e [] = None"
| "remove_at (Elem t a x l cs) [i] =
     (if i < length cs then Some (Elem t a x l (take i cs @ drop (Suc i) cs)) else None)"
| "remove_at (Elem t a x l cs) (i # p) =
     (if i < length cs then
        (case remove_at (cs ! i) p of
           None \<Rightarrow> None
         | Some c \<Rightarrow> Some (Elem t a x l (cs[i := c])))
      else None)"

text \<open>\<^verbatim>\<open>elem.append(c)\<close> for the element at a path; a path that leads nowhere leaves
  the tree as it is.\<close>

fun append_at :: "elem \<Rightarrow> path \<Rightarrow> elem \<Rightarrow> elem" where
  "append_at e [] c = append_child e c"
| "append_at (Elem t a x l cs) (i # p) c =
     (if i < length cs then Elem t a x l (cs[i := append_at (cs ! i) p c])
      else Elem t a x l cs)"

subsection \<open>Cumulative transforms\<close>

text \<open>The chain of elements from the root down to the element at a path: the reversed
  walk \<^verbatim>\<open>cur = parent_map.get(cur)\<close>.\<close>

fun chain :: "elem \<Rightarrow> path \<Rightarrow> elem list" where
  "chain e [] = [e]"
| "chain e (i # p) =
     e # (if i < length (children e) then chain (children e ! i) p else [])"

text \<open>The loop \<^verbatim>\<open>m = mat_mul(m, parse_transform(node.get("transform")))\<close>.\<close>

fun compose_chain :: "mat \<Rightarrow> elem list \<Rightarrow> error + mat" where
  "compose_chain m [] = Inr m"
| "compose_chain m (node # rest) =
     (case parse_transform (get node ''transform'') of
        Inl e \<Rightarrow> Inl e
      | Inr t \<Rightarrow> compose_chain (mat_mul m t) rest)"

definition cumulative_transform_to_element :: "elem \<Rightarrow> path \<Rightarrow> error + mat" where
  "cumulative_transform_to_element doc p = compose_chain mat_identity (chain doc p)"

definition cumulative_transform_to_parent :: "elem \<Rightarrow> path \<Rightarrow> error + mat" where
  "cumulative_transform_to_parent doc p = compose_chain mat_identity (chain doc p)"

section \<open>The program\<close>

definition SVG_NS :: string where
  "SVG_NS = ''http://www.w3.org/2000/svg''"

definition TEMPLATE_ID :: string where
  "TEMPLATE_ID = ''g16532''"

definition STAR_IDS_TO_DELETE :: "string list" where
  "STAR_IDS_TO_DELETE =
     [''g16722'', ''g16712'', ''g16702'', ''g16692'', ''g16682'', ''g16672'', ''g16662'',
      ''g16652'', ''g16642'', ''g16632'', ''g16622'', ''g16612'', ''g16602'', ''g16592'',
      ''g16582'', ''g16572'', ''g16562'', ''g16552'', ''g16542'']"

definition GLOBAL_CENTER_X :: real where "GLOBAL_CENTER_X = 750"
definition GLOBAL_CENTER_Y :: real where "GLOBAL_CENTER_Y = 515"
definition TOTAL_STARS :: nat where "TOTAL_STARS = 27"
definition STEP_DEG :: real where "STEP_DEG = 360 / real TOTAL_STARS"
definition DIRECTION :: real where "DIRECTION = 1"

subsection \<open>The rotation centre\<close>

text \<open>
  The first part of \<^verbatim>\<open>main\<close>: the template, its parent and the centre of rotation in
  the parent's coordinates. The result is the path of the template and the centre.
\<close>

definition local_center :: "elem \<Rightarrow> error + (path \<times> real \<times> real)" where
  "local_center doc =
     (case find_element_by_id doc TEMPLATE_ID of
        None \<Rightarrow> Inl TemplateNotFound
      | Some template_live \<Rightarrow>
          (case parent_of template_live of
             None \<Rightarrow> Inl TemplateHasNoParent
           | Some star_parent \<Rightarrow>
               (case cumulative_transform_to_parent doc star_parent of
                  Inl e \<Rightarrow> Inl e
                | Inr parent_to_global \<Rightarrow>
                    (case mat_inv parent_to_global of
                       Inl e \<Rightarrow> Inl e
                     | Inr global_to_parent \<Rightarrow>
                         Inr (template_live,
                              mat_apply global_to_parent GLOBAL_CENTER_X GLOBAL_CENTER_Y)))))"

subsection \<open>The deletion phase\<close>

text \<open>
  \<^verbatim>\<open>star_parent\<close> is a reference to an element object. While that object is part of the
  document it is known by its path; once an element above it (or itself) has been
  removed, the object is no longer part of the document and the reference carries its
  value.
\<close>

datatype ref = Live path | Detached elem

definition is_prefix :: "path \<Rightarrow> path \<Rightarrow> bool" where
  "is_prefix p q \<longleftrightarrow> take (length p) q = p"

text \<open>The path of an element that stays in the document when the element at the path
  given first is removed: a later sibling of the removed element, and everything below
  one, moves one index down.\<close>

fun shift :: "path \<Rightarrow> path \<Rightarrow> path" where
  "shift [] q = q"
| "shift (i # p) [] = []"
| "shift [k] (j # q) = (if k < j then (j - 1) # q else j # q)"
| "shift (i # p) (j # q) = (if i = j then j # shift p q else j # q)"

fun track_removal :: "elem \<Rightarrow> path \<Rightarrow> ref \<Rightarrow> ref" where
  "track_removal doc p (Detached e) = Detached e"
| "track_removal doc p (Live q) =
     (if is_prefix p q then
        (case subtree doc q of Some e \<Rightarrow> Detached e | None \<Rightarrow> Live q)
      else Live (shift p q))"

text \<open>
  One round of the loop \<^verbatim>\<open>for sid in all_to_delete\<close>, on the document, the reference
  \<^verbatim>\<open>star_parent\<close> and the counter \<^verbatim>\<open>deleted\<close>.
\<close>

definition delete_one :: "elem \<times> ref \<times> nat \<Rightarrow> string \<Rightarrow> error + (elem \<times> ref \<times> nat)" where
  "delete_one st sid =
     (case st of (doc, star_parent, deleted) \<Rightarrow>
        (case find_element_by_id doc sid of
           None \<Rightarrow> Inr st
         | Some elem \<Rightarrow>
             (case parent_of elem of
                None \<Rightarrow> Inr st
              | Some par \<Rightarrow>
                  (case remove_at doc elem of
                     None \<Rightarrow> Inl NotAChild
                   | Some doc' \<Rightarrow>
                       Inr (doc', track_removal doc elem star_parent, deleted + 1)))))"

fun delete_phase :: "elem \<times> ref \<times> nat \<Rightarrow> string list \<Rightarrow> error + (elem \<times> ref \<times> nat)" where
  "delete_phase st [] = Inr st"
| "delete_phase st (sid # sids) =
     (case delete_one st sid of
        Inl e \<Rightarrow> Inl e
      | Inr st' \<Rightarrow> delete_phase st' sids)"

subsection \<open>The stamping phase\<close>

lemma digits_val_snoc: "digits_val (ds @ [c]) = 10 * digits_val ds + digit_val c"
  by (simp add: digits_val_def)

lemma digit_val_digit_char: "digit_val (digit_char d) = d mod 10"
proof -
  have "d mod 10 < 10" by simp
  then consider "d mod 10 = 0" | "d mod 10 = 1" | "d mod 10 = 2" | "d mod 10 = 3"
    | "d mod 10 = 4" | "d mod 10 = 5" | "d mod 10 = 6" | "d mod 10 = 7"
    | "d mod 10 = 8" | "d mod 10 = 9"
    by atomize_elim arith
  then show ?thesis
    by cases (simp_all add: digit_val_def digit_char_def)
qed

lemma digits_val_dec: "digits_val (dec n) = n"
proof (induction n rule: dec.induct)
  case (1 n)
  show ?case
  proof (cases "n < 10")
    case True
    then show ?thesis
      by (subst dec.simps) (simp add: digits_val_def digit_val_digit_char)
  next
    case False
    with 1 have "digits_val (dec (n div 10)) = n div 10" by simp
    with False show ?thesis
      by (subst dec.simps) (simp add: digits_val_snoc digit_val_digit_char)
  qed
qed

lemma dec_inj: "dec m = dec n \<Longrightarrow> m = n"
  by (metis digits_val_dec)

text \<open>
  The loop \<^verbatim>\<open>while star_id in existing_ids\<close>, entered with the first candidate and
  \<^verbatim>\<open>suffix = 2\<close>. It ends because the candidates of different suffixes differ and
  \<^verbatim>\<open>existing_ids\<close> is finite.
\<close>

definition star_candidate :: "nat \<Rightarrow> nat \<Rightarrow> string" where
  "star_candidate i suffix = TEMPLATE_ID @ ''_new'' @ fmt_02d i @ ''_'' @ dec suffix"

function star_id_loop :: "string list \<Rightarrow> nat \<Rightarrow> string \<Rightarrow> nat \<Rightarrow> string" where
  "star_id_loop existing_ids i star_id suffix =
     (if star_id \<in> set existing_ids
      then star_id_loop existing_ids i (star_candidate i suffix) (suffix + 1)
      else star_id)"
  by pat_completeness auto
termination
proof (relation "measure (\<lambda>(ids, i, star_id, suffix).
          (if star_id \<in> set ids then 1 else 0) +
          2 * card {k. suffix \<le> k \<and> star_candidate i k \<in> set ids})")
  show "wf (measure (\<lambda>(ids, i, star_id, suffix).
          (if star_id \<in> set ids then 1 else 0) +
          2 * card {k. suffix \<le> k \<and> star_candidate i k \<in> set (ids :: string list)}))"
    by simp
next
  fix existing_ids :: "string list" and i :: nat and star_id :: string and suffix :: nat
  assume mem: "star_id \<in> set existing_ids"
  let ?S = "\<lambda>s. {k. s \<le> k \<and> star_candidate i k \<in> set existing_ids}"
  have inj: "inj (star_candidate i)"
    by (rule injI) (simp add: star_candidate_def dec_inj)
  have "finite (star_candidate i -` set existing_ids)"
    using inj by (intro finite_vimageI) simp_all
  then have fin: "finite (?S suffix)"
    by (rule rev_finite_subset) auto
  have sub: "?S (suffix + 1) \<subseteq> ?S suffix" by auto
  have "(if star_candidate i suffix \<in> set existing_ids then 1 else 0) + 2 * card (?S (suffix + 1))
        < 1 + 2 * card (?S suffix)"
  proof (cases "star_candidate i suffix \<in> set existing_ids")
    case True
    then have "suffix \<in> ?S suffix" "suffix \<notin> ?S (suffix + 1)" by auto
    with sub have "?S (suffix + 1) \<subset> ?S suffix" by blast
    with fin have "card (?S (suffix + 1)) < card (?S suffix)" by (rule psubset_card_mono)
    with True show ?thesis by simp
  next
    case False
    have "card (?S (suffix + 1)) \<le> card (?S suffix)" using fin sub by (rule card_mono)
    with False show ?thesis by simp
  qed
  with mem show "((existing_ids, i, star_candidate i suffix, suffix + 1),
                  (existing_ids, i, star_id, suffix))
        \<in> measure (\<lambda>(ids, i, star_id, suffix).
          (if star_id \<in> set ids then 1 else 0) +
          2 * card {k. suffix \<le> k \<and> star_candidate i k \<in> set ids})"
    by simp
qed

declare star_id_loop.simps [simp del]

text \<open>The loop \<^verbatim>\<open>while wrapper_id in existing_ids: wrapper_id += "_x"\<close>. It ends because
  the candidate grows longer than every member of \<^verbatim>\<open>existing_ids\<close>.\<close>

function wrapper_id_loop :: "string list \<Rightarrow> string \<Rightarrow> string" where
  "wrapper_id_loop existing_ids wrapper_id =
     (if wrapper_id \<in> set existing_ids
      then wrapper_id_loop existing_ids (wrapper_id @ ''_x'')
      else wrapper_id)"
  by pat_completeness auto
termination
proof (relation "measure (\<lambda>(ids, wid). Suc (sum_list (map length ids)) - length wid)")
  show "wf (measure (\<lambda>(ids :: string list, wid :: string).
          Suc (sum_list (map length ids)) - length wid))"
    by simp
next
  fix existing_ids :: "string list" and wrapper_id :: string
  assume "wrapper_id \<in> set existing_ids"
  then have "length wrapper_id \<le> sum_list (map length existing_ids)"
    by (induction existing_ids) auto
  then show "((existing_ids, wrapper_id @ ''_x''), (existing_ids, wrapper_id))
      \<in> measure (\<lambda>(ids, wid). Suc (sum_list (map length ids)) - length wid)"
    by simp
qed

declare wrapper_id_loop.simps [simp del]

text \<open>\<^verbatim>\<open>star_parent.append(wrapper)\<close>.\<close>

fun append_ref :: "elem \<Rightarrow> ref \<Rightarrow> elem \<Rightarrow> elem \<times> ref" where
  "append_ref doc (Live q) w = (append_at doc q w, Live q)"
| "append_ref doc (Detached e) w = (doc, Detached (append_child e w))"

definition wrapper_transform :: "nat \<Rightarrow> real \<Rightarrow> real \<Rightarrow> string" where
  "wrapper_transform i local_cx local_cy =
     (let angle = DIRECTION * STEP_DEG * real i
      in ''rotate('' @ fmt_g12 angle @ '' '' @ fmt_g12 local_cx @ '' '' @ fmt_g12 local_cy @ '')'')"

text \<open>
  One round of the loop \<^verbatim>\<open>for i in range(TOTAL_STARS)\<close>, on the document, the reference
  \<^verbatim>\<open>star_parent\<close> and \<^verbatim>\<open>existing_ids\<close>.
\<close>

definition stamp_one ::
  "elem \<Rightarrow> real \<Rightarrow> real \<Rightarrow> elem \<times> ref \<times> string list \<Rightarrow> nat \<Rightarrow> elem \<times> ref \<times> string list" where
  "stamp_one template_snapshot local_cx local_cy st i =
     (case st of (doc, star_parent, existing_ids) \<Rightarrow>
        let star_id = star_id_loop existing_ids i (TEMPLATE_ID @ ''_new'' @ fmt_02d i) 2;
            star = set_attr template_snapshot ''id'' star_id;
            ids1 = star_id # existing_ids;
            wrapper_id = wrapper_id_loop ids1 (star_id @ ''_wrap'');
            ids2 = wrapper_id # ids1;
            wrapper = Elem (''{'' @ SVG_NS @ ''}g'')
                        [(''id'', wrapper_id),
                         (''transform'', wrapper_transform i local_cx local_cy)]
                        None None [star];
            (doc', star_parent') = append_ref doc star_parent wrapper
        in (doc', star_parent', ids2))"

definition stamp_phase ::
  "elem \<Rightarrow> real \<Rightarrow> real \<Rightarrow> elem \<times> ref \<times> string list \<Rightarrow> elem \<times> ref \<times> string list" where
  "stamp_phase template_snapshot local_cx local_cy st =
     foldl (stamp_one template_snapshot local_cx local_cy) st [0..<TOTAL_STARS]"

subsection \<open>\<^verbatim>\<open>main\<close>\<close>

text \<open>
  What a run that returns 0 leaves behind: the document written to the output file,
  the element \<^verbatim>\<open>star_parent\<close>, the number of deletions and the centre of rotation.
\<close>

record outcome =
  out_doc :: elem
  out_parent :: ref
  out_deleted :: nat
  out_center :: "real \<times> real"

definition all_to_delete :: "string list" where
  "all_to_delete = STAR_IDS_TO_DELETE @ [TEMPLATE_ID]"

definition main :: "elem \<Rightarrow> error + outcome" where
  "main doc =
     (case local_center doc of
        Inl e \<Rightarrow> Inl e
      | Inr (template_live, local_cx, local_cy) \<Rightarrow>
          (case subtree doc template_live of
             None \<Rightarrow> Inl TemplateNotFound
           | Some template_snapshot \<Rightarrow>
               (case delete_phase (doc, Live (butlast template_live), 0) all_to_delete of
                  Inl e \<Rightarrow> Inl e
                | Inr (doc1, star_parent, deleted) \<Rightarrow>
                    (case stamp_phase template_snapshot local_cx local_cy
                            (doc1, star_parent, find_all_ids doc1) of
                       (doc2, star_parent', existing_ids) \<Rightarrow>
                         Inr \<lparr>out_doc = doc2, out_parent = star_parent',
                              out_deleted = deleted, out_center = (local_cx, local_cy)\<rparr>))))"

text \<open>The identifiers present in a document: the \<^verbatim>\<open>id\<close> attributes of its elements in
  document order, the empty string included.\<close>

definition all_ids :: "elem \<Rightarrow> string list" where
  "all_ids doc = List.map_filter (\<lambda>e. get e ''id'') (iter doc)"

text \<open>The element a reference stands for.\<close>

fun deref :: "elem \<Rightarrow> ref \<Rightarrow> elem option" where
  "deref doc (Live q) = subtree doc q"
| "deref doc (Detached e) = Some e"

section \<open>Properties of the transform parser\<close>

lemma space_not_alpha: "is_space c \<Longrightarrow> \<not> is_alpha c"
  by (auto simp: is_space_def is_alpha_def)

lemma paren_not_alpha [simp]: "\<not> is_alpha CHR ''(''" "\<not> is_space CHR ''(''"
  by (simp_all add: is_alpha_def is_space_def)

lemma findall_nonalpha: "\<not> is_alpha c \<Longrightarrow> transform_cmd_findall (c # cs) = transform_cmd_findall cs"
  by (simp add: transform_cmd_findall.simps)

lemma findall_alpha:
  "is_alpha c \<Longrightarrow> transform_cmd_findall (c # cs) =
     (case dropWhile is_space (dropWhile is_alpha cs) of
        [] \<Rightarrow> transform_cmd_findall cs
      | p # r2 \<Rightarrow>
          if p = CHR ''('' then
            (case dropWhile (\<lambda>x. x \<noteq> CHR '')'') r2 of
               [] \<Rightarrow> transform_cmd_findall cs
             | _ # r4 \<Rightarrow> (c # takeWhile is_alpha cs, takeWhile (\<lambda>x. x \<noteq> CHR '')'') r2) #
                          transform_cmd_findall r4)
          else transform_cmd_findall cs)"
  by (simp add: transform_cmd_findall.simps Let_def del: dropWhile_eq_Nil_conv split: list.split)

lemma findall_skip:
  assumes "dropWhile is_space (dropWhile is_alpha cs) = [] \<or>
           hd (dropWhile is_space (dropWhile is_alpha cs)) \<noteq> CHR ''(''"
  shows "transform_cmd_findall (c # cs) = transform_cmd_findall cs"
proof (cases "is_alpha c")
  case True
  show ?thesis
  proof (cases "dropWhile is_space (dropWhile is_alpha cs)")
    case Nil
    show ?thesis unfolding findall_alpha [OF True] Nil by simp
  next
    case (Cons p r2)
    with assms have "p \<noteq> CHR ''(''" by simp
    then show ?thesis unfolding findall_alpha [OF True] Cons by simp
  qed
next
  case False
  then show ?thesis by (rule findall_nonalpha)
qed

lemma findall_match:
  assumes "name \<noteq> []" "\<forall>c\<in>set name. is_alpha c" "\<forall>c\<in>set ws. is_space c"
    and "CHR '')'' \<notin> set args"
  shows "transform_cmd_findall (name @ ws @ CHR ''('' # args @ CHR '')'' # rest) =
         (name, args) # transform_cmd_findall rest"
proof -
  obtain c cs where name: "name = c # cs" using assms(1) by (cases name) auto
  let ?u = "ws @ CHR ''('' # args @ CHR '')'' # rest"
  have ws: "\<forall>c\<in>set ws. \<not> is_alpha c" using assms(3) space_not_alpha by blast
  have hd_u: "?u \<noteq> [] \<and> \<not> is_alpha (hd ?u)"
    using ws by (cases ws) auto
  have tw: "takeWhile is_alpha (name @ ?u) = name"
    using assms(2) hd_u by (cases ?u) (auto simp: takeWhile_append2 simp del: append.simps)
  have dw: "dropWhile is_alpha (name @ ?u) = ?u"
    using assms(2) hd_u by (cases ?u) (auto simp: dropWhile_append2 simp del: append.simps)
  have dws: "dropWhile is_space ?u = CHR ''('' # args @ CHR '')'' # rest"
    using assms(3) by (simp add: dropWhile_append2)
  have ta: "takeWhile (\<lambda>x. x \<noteq> CHR '')'') (args @ CHR '')'' # rest) = args"
    using assms(4) by (subst takeWhile_append2) auto
  have da: "dropWhile (\<lambda>x. x \<noteq> CHR '')'') (args @ CHR '')'' # rest) = CHR '')'' # rest"
    using assms(4) by (subst dropWhile_append2) auto
  have c: "is_alpha c" using assms(2) name by simp
  have "transform_cmd_findall (c # (cs @ ?u)) = (name, args) # transform_cmd_findall rest"
    apply (subst transform_cmd_findall.simps)
    using c tw dw dws ta da unfolding name
    by (simp del: dropWhile.simps takeWhile.simps dropWhile_append3 add: Let_def)
  then show ?thesis unfolding name by simp
qed


lemma hd_dropWhile_in_set: "dropWhile P xs \<noteq> [] \<Longrightarrow> hd (dropWhile P xs) \<in> set xs"
  by (metis hd_in_set set_dropWhileD)

lemma findall_no_paren:
  "CHR ''('' \<notin> set s \<Longrightarrow> transform_cmd_findall s = []"
proof (induction s)
  case Nil
  show ?case by (simp add: transform_cmd_findall.simps)
next
  case (Cons c cs)
  let ?r = "dropWhile is_space (dropWhile is_alpha cs)"
  have "?r = [] \<or> hd ?r \<noteq> CHR ''(''"
  proof (cases "?r = []")
    case False
    then have "hd ?r \<in> set (dropWhile is_alpha cs)" by (rule hd_dropWhile_in_set)
    then have "hd ?r \<in> set cs" by (rule set_dropWhileD)
    with Cons.prems show ?thesis by auto
  qed simp
  then have "transform_cmd_findall (c # cs) = transform_cmd_findall cs" by (rule findall_skip)
  with Cons show ?case by simp
qed

lemma findall_no_alpha:
  "\<forall>c\<in>set s. \<not> is_alpha c \<Longrightarrow> transform_cmd_findall s = []"
  by (induction s) (simp_all add: transform_cmd_findall.simps)

lemma all_dropWhile_iff: "(\<forall>x\<in>set (dropWhile P s). P x) \<longleftrightarrow> (\<forall>x\<in>set s. P x)"
  by (induction s) auto

lemma strip_Nil_iff: "strip s = [] \<longleftrightarrow> (\<forall>c\<in>set s. is_space c)"
  by (simp add: strip_def all_dropWhile_iff)

lemma parse_transform_findall:
  "parse_transform (Some s) = apply_cmds mat_identity (transform_cmd_findall s)"
proof (cases "s = [] \<or> strip s = []")
  case True
  then have "\<forall>c\<in>set s. \<not> is_alpha c"
    using space_not_alpha by (auto simp: strip_Nil_iff)
  then have "transform_cmd_findall s = []" by (rule findall_no_alpha)
  with True show ?thesis by (simp add: parse_transform_def)
next
  case False
  then show ?thesis by (simp add: parse_transform_def)
qed

text \<open>Junk in front of a command (or at the end of the string) is dropped.\<close>

lemma findall_junk:
  assumes "CHR ''('' \<notin> set g"
    and "rest = [] \<or> (is_alpha (hd rest) \<and> (g = [] \<or> \<not> is_alpha (last g)))"
  shows "transform_cmd_findall (g @ rest) = transform_cmd_findall rest"
proof (cases "rest = []")
  case True
  then show ?thesis using assms(1) by (simp add: findall_no_paren)
next
  case False
  with assms(2) have hd: "is_alpha (hd rest)" and lst: "g = [] \<or> \<not> is_alpha (last g)"
    by auto
  from hd have hd_nsp: "\<not> is_space (hd rest)" using space_not_alpha by blast
  from hd have hd_np: "hd rest \<noteq> CHR ''(''" by auto
  show ?thesis using assms(1) lst
  proof (induction g)
    case Nil
    show ?case by simp
  next
    case (Cons c g')
    have step: "transform_cmd_findall (c # (g' @ rest)) = transform_cmd_findall (g' @ rest)"
    proof (cases "is_alpha c")
      case False
      then show ?thesis by (rule findall_nonalpha)
    next
      case True
      let ?d = "dropWhile is_alpha (g' @ rest)"
      let ?r = "dropWhile is_space ?d"
      from Cons.prems True have g': "g' \<noteq> []" "\<not> is_alpha (last g')"
        by (auto split: if_splits)
      then have ex: "last g' \<in> set g'" by simp
      have d: "?d = dropWhile is_alpha g' @ rest"
        using ex g'(2) by (rule dropWhile_append1)
      have dne: "dropWhile is_alpha g' \<noteq> []"
        using ex g'(2) by (auto simp: dropWhile_eq_Nil_conv)
      have "?r = [] \<or> hd ?r \<noteq> CHR ''(''"
      proof (cases "\<forall>x\<in>set (dropWhile is_alpha g'). is_space x")
        case True
        then have "?r = dropWhile is_space rest"
          unfolding d by (simp add: dropWhile_append2)
        also have "\<dots> = rest" using hd_nsp \<open>rest \<noteq> []\<close> by (cases rest) auto
        finally show ?thesis using hd_np by simp
      next
        case False
        then obtain x where x: "x \<in> set (dropWhile is_alpha g')" "\<not> is_space x" by blast
        then have r: "?r = dropWhile is_space (dropWhile is_alpha g') @ rest"
          unfolding d by (rule dropWhile_append1)
        have ne: "dropWhile is_space (dropWhile is_alpha g') \<noteq> []"
          using x by (auto simp: dropWhile_eq_Nil_conv)
        then have "hd ?r = hd (dropWhile is_space (dropWhile is_alpha g'))"
          unfolding r by simp
        also have "\<dots> \<in> set (dropWhile is_alpha g')" using ne by (rule hd_dropWhile_in_set)
        finally have "hd ?r \<in> set g'" by (rule set_dropWhileD)
        with Cons.prems(1) show ?thesis by auto
      qed
      then show ?thesis by (rule findall_skip)
    qed
    have "CHR ''('' \<notin> set g'" using Cons.prems(1) by simp
    moreover have "g' = [] \<or> \<not> is_alpha (last g')"
      using Cons.prems(2) by (cases "g' = []") (auto split: if_splits)
    ultimately have "transform_cmd_findall (g' @ rest) = transform_cmd_findall rest"
      by (rule Cons.IH)
    with step show ?case by simp
  qed
qed

lemma mat_mul_identity_left:
  "mat_mul mat_identity ((a, c, e), (b, d, f), (0, 0, 1)) = ((a, c, e), (b, d, f), (0, 0, 1))"
  by (simp add: mat_identity_def)

lemma parse_single_command:
  assumes "name \<noteq> []" "\<forall>c\<in>set name. is_alpha c" "CHR '')'' \<notin> set argstr"
    and "parse_number_list argstr = Inr vals"
  shows "parse_transform (Some (name @ ''('' @ argstr @ '')'')) =
         (case command_matrix name vals of Inl e \<Rightarrow> Inl e | Inr m \<Rightarrow> Inr (mat_mul mat_identity m))"
proof -
  have "transform_cmd_findall (name @ [] @ CHR ''('' # argstr @ CHR '')'' # []) =
        (name, argstr) # transform_cmd_findall []"
    using assms(1-3) by (intro findall_match) auto
  then have "transform_cmd_findall (name @ ''('' @ argstr @ '')'') = [(name, argstr)]"
    by (simp add: transform_cmd_findall.simps)
  then show ?thesis
    using assms(4) by (simp add: parse_transform_findall split: sum.splits)
qed

text \<open>
  Claim C10. A \<^verbatim>\<open>translate\<close> command with exactly one argument \<open>v\<close> is the translation by
  \<open>(v, 0)\<close>, and a \<^verbatim>\<open>scale\<close> command with exactly one argument \<open>v\<close> is the uniform
  scale with \<open>sx = sy = v\<close>: both for the parsed attribute string and for the matrix
  the loop body builds, whatever the letter case of the command name.
\<close>

theorem single_argument_translate_scale:
  "(parse_number_list argstr = Inr [v] \<and> CHR '')'' \<notin> set argstr \<longrightarrow>
      parse_transform (Some (''translate('' @ argstr @ '')'')) = Inr (mat_translate v 0) \<and>
      parse_transform (Some (''scale('' @ argstr @ '')'')) = Inr ((v, 0, 0), (0, v, 0), (0, 0, 1)))
   \<and> (lower cmd = ''translate'' \<longrightarrow>
        command_matrix cmd [v] = Inr (mat_translate v 0) \<and>
        command_matrix cmd [v] = command_matrix cmd [v, 0])
   \<and> (lower cmd = ''scale'' \<longrightarrow>
        command_matrix cmd [v] = Inr ((v, 0, 0), (0, v, 0), (0, 0, 1)) \<and>
        command_matrix cmd [v] = command_matrix cmd [v, v])"
proof (intro conjI impI)
  assume a: "parse_number_list argstr = Inr [v] \<and> CHR '')'' \<notin> set argstr"
  have t: "command_matrix ''translate'' [v] = Inr (mat_translate v 0)"
    by (simp add: command_matrix_def lower_def lower_char_def)
  have "parse_transform (Some (''translate'' @ ''('' @ argstr @ '')'')) =
        (case command_matrix ''translate'' [v] of Inl e \<Rightarrow> Inl e
         | Inr m \<Rightarrow> Inr (mat_mul mat_identity m))"
    using a by (intro parse_single_command) (auto simp: is_alpha_def)
  then show "parse_transform (Some (''translate('' @ argstr @ '')'')) = Inr (mat_translate v 0)"
    by (simp add: t mat_translate_def mat_mul_identity_left)
  have s: "command_matrix ''scale'' [v] = Inr ((v, 0, 0), (0, v, 0), (0, 0, 1))"
    by (simp add: command_matrix_def lower_def lower_char_def)
  have "parse_transform (Some (''scale'' @ ''('' @ argstr @ '')'')) =
        (case command_matrix ''scale'' [v] of Inl e \<Rightarrow> Inl e
         | Inr m \<Rightarrow> Inr (mat_mul mat_identity m))"
    using a by (intro parse_single_command) (auto simp: is_alpha_def)
  then show "parse_transform (Some (''scale('' @ argstr @ '')'')) =
             Inr ((v, 0, 0), (0, v, 0), (0, 0, 1))"
    by (simp add: s mat_mul_identity_left)
qed (simp_all add: command_matrix_def)

theorem single_argument_translate_scale_witness:
  "parse_transform (Some ''translate(7.5)'') = Inr (mat_translate (15 / 2) 0) \<and>
   parse_transform (Some ''scale(7.5)'') = Inr ((15 / 2, 0, 0), (0, 15 / 2, 0), (0, 0, 1)) \<and>
   command_matrix ''Translate'' [15 / 2] = command_matrix ''Translate'' [15 / 2, 0] \<and>
   command_matrix ''SCALE'' [15 / 2] = command_matrix ''SCALE'' [15 / 2, 15 / 2]"
proof -
  have p: "parse_number_list ''7.5'' = Inr [15 / 2]" by code_simp
  have l: "lower ''Translate'' = ''translate''" "lower ''SCALE'' = ''scale''"
    by (simp_all add: lower_def lower_char_def)
  show ?thesis
    using single_argument_translate_scale [of "''7.5''" "15 / 2" "''Translate''"]
      single_argument_translate_scale [of "''7.5''" "15 / 2" "''SCALE''"] p l
    by auto
qed

text \<open>
  Claim C9. Text of the attribute that does not match a command name followed by a
  parenthesised argument list is ignored without error: a string without an opening
  parenthesis (a bare command name, any other text), and every string in which the
  pattern finds nothing, parses to the identity matrix; junk without parentheses in
  front of a command, or between a well-formed command and the next one, does not
  change the result.
\<close>

theorem unmatched_text_ignored:
  "(CHR ''('' \<notin> set s \<longrightarrow> parse_transform (Some s) = Inr mat_identity)
   \<and> (transform_cmd_findall s = [] \<longrightarrow> parse_transform (Some s) = Inr mat_identity)
   \<and> (CHR ''('' \<notin> set g \<and> (rest = [] \<or> is_alpha (hd rest) \<and> (g = [] \<or> \<not> is_alpha (last g))) \<longrightarrow>
        parse_transform (Some (g @ rest)) = parse_transform (Some rest) \<and>
        (name \<noteq> [] \<and> (\<forall>c\<in>set name. is_alpha c) \<and> (\<forall>c\<in>set ws. is_space c) \<and>
         CHR '')'' \<notin> set args \<longrightarrow>
           parse_transform (Some (name @ ws @ ''('' @ args @ '')'' @ g @ rest)) =
           parse_transform (Some (name @ ws @ ''('' @ args @ '')'' @ rest))))"
proof (intro conjI impI)
  assume "CHR ''('' \<notin> set s"
  then show "parse_transform (Some s) = Inr mat_identity"
    by (simp add: parse_transform_findall findall_no_paren)
next
  assume "transform_cmd_findall s = []"
  then show "parse_transform (Some s) = Inr mat_identity"
    by (simp add: parse_transform_findall)
next
  assume g: "CHR ''('' \<notin> set g \<and>
    (rest = [] \<or> is_alpha (hd rest) \<and> (g = [] \<or> \<not> is_alpha (last g)))"
  then have j: "transform_cmd_findall (g @ rest) = transform_cmd_findall rest"
    by (intro findall_junk) auto
  then show "parse_transform (Some (g @ rest)) = parse_transform (Some rest)"
    by (simp add: parse_transform_findall)
  assume n: "name \<noteq> [] \<and> (\<forall>c\<in>set name. is_alpha c) \<and> (\<forall>c\<in>set ws. is_space c) \<and>
    CHR '')'' \<notin> set args"
  have "transform_cmd_findall (name @ ws @ CHR ''('' # args @ CHR '')'' # (g @ rest)) =
        (name, args) # transform_cmd_findall (g @ rest)"
    using n by (intro findall_match) auto
  moreover have "transform_cmd_findall (name @ ws @ CHR ''('' # args @ CHR '')'' # rest) =
        (name, args) # transform_cmd_findall rest"
    using n by (intro findall_match) auto
  ultimately show "parse_transform (Some (name @ ws @ ''('' @ args @ '')'' @ g @ rest)) =
           parse_transform (Some (name @ ws @ ''('' @ args @ '')'' @ rest))"
    using j by (simp add: parse_transform_findall)
qed

theorem unmatched_text_ignored_witness:
  "parse_transform (Some ''translate'') = Inr mat_identity \<and>
   parse_transform (Some ''12 , hello world'') = Inr mat_identity \<and>
   parse_transform (Some ''junk 12, scale(2)'') = parse_transform (Some ''scale(2)'') \<and>
   parse_transform (Some ''translate (1,2) junk 12, scale(2)'') =
   parse_transform (Some ''translate (1,2)scale(2)'')"
proof -
  have a: "parse_transform (Some ''translate'') = Inr mat_identity"
    using unmatched_text_ignored [of "''translate''" "[]" "[]" "[]" "[]" "[]"] by simp
  have b: "parse_transform (Some ''12 , hello world'') = Inr mat_identity"
    using unmatched_text_ignored [of "''12 , hello world''" "[]" "[]" "[]" "[]" "[]"] by simp
  have c: "parse_transform (Some (''junk 12, '' @ ''scale(2)'')) = parse_transform (Some ''scale(2)'')"
    using unmatched_text_ignored [of "[]" "''junk 12, ''" "''scale(2)''" "[]" "[]" "[]"]
    by (simp add: is_alpha_def)
  have d: "parse_transform (Some (''translate'' @ '' '' @ ''('' @ ''1,2'' @ '')'' @ '' junk 12, '' @ ''scale(2)'')) =
     parse_transform (Some (''translate'' @ '' '' @ ''('' @ ''1,2'' @ '')'' @ ''scale(2)''))"
    using unmatched_text_ignored [of "[]" "'' junk 12, ''" "''scale(2)''" "''translate''" "'' ''" "''1,2''"]
    by (simp add: is_alpha_def is_space_def)
  from a b c d show ?thesis by simp
qed








section \<open>Properties of matrix inversion\<close>


lemma mat_inv_succeeds_iff: "(\<exists>M'. mat_inv M = Inr M') \<longleftrightarrow> 1 / 10 ^ 12 \<le> \<bar>det2 M\<bar>"
  by (cases M rule: mat_inv.cases) (auto simp: Let_def)










section \<open>The rotation centre\<close>

lemma find_subtree:
  "find_element_by_id e i = Some p \<Longrightarrow> \<exists>t. subtree e p = Some t \<and> get t ''id'' = Some i"
  "find_in_children cs k i = Some p \<Longrightarrow>
     \<exists>j q t. p = (k + j) # q \<and> j < length cs \<and> subtree (cs ! j) q = Some t \<and> get t ''id'' = Some i"
proof (induction e i and cs k i arbitrary: p and p rule: find_element_by_id_find_in_children.induct)
  case (1 t a x l cs elem_id)
  show ?case
  proof (cases "map_of a ''id'' = Some elem_id")
    case True
    with 1 show ?thesis by (simp add: get_def)
  next
    case False
    with 1 show ?thesis by fastforce
  qed
next
  case (2 k elem_id)
  then show ?case by simp
next
  case (3 c cs k elem_id)
  show ?case
  proof (cases "find_element_by_id c elem_id")
    case None
    with 3 obtain j q t where "p = (Suc k + j) # q" "j < length cs"
      "subtree (cs ! j) q = Some t" "get t ''id'' = Some elem_id"
      by fastforce
    then show ?thesis by (intro exI [of _ "Suc j"]) auto
  next
    case (Some q)
    with 3 show ?thesis by (intro exI [of _ 0]) auto
  qed
qed

lemma chain_snoc:
  "subtree e p = Some t \<Longrightarrow> p \<noteq> [] \<Longrightarrow> chain e p = chain e (butlast p) @ [t]"
proof (induction e p rule: chain.induct)
  case (1 e)
  then show ?case by simp
next
  case (2 e i p)
  then show ?case by (cases "p = []") (auto split: if_splits)
qed

lemma compose_chain_append:
  "compose_chain m (xs @ ys) =
     (case compose_chain m xs of Inl e \<Rightarrow> Inl e | Inr m' \<Rightarrow> compose_chain m' ys)"
  by (induction xs arbitrary: m) (auto split: sum.splits)

lemma mat_mul_bottom: "snd (snd (mat_mul A B)) = (0, 0, 1)"
  by (cases "(A, B)" rule: mat_mul.cases) simp

lemma compose_chain_bottom:
  "compose_chain m xs = Inr P \<Longrightarrow> xs \<noteq> [] \<Longrightarrow> snd (snd P) = (0, 0, 1)"
proof (induction xs arbitrary: m)
  case Nil
  then show ?case by simp
next
  case (Cons x xs)
  then obtain t where t: "parse_transform (get x ''transform'') = Inr t"
    and r: "compose_chain (mat_mul m t) xs = Inr P"
    by (auto split: sum.splits)
  show ?case
  proof (cases "xs = []")
    case True
    with r show ?thesis using mat_mul_bottom [of m t] by simp
  next
    case False
    with r show ?thesis by (rule Cons.IH)
  qed
qed

lemma chain_nonempty: "chain e p \<noteq> []"
  by (cases p) simp_all

lemma mat_mul_identity_right:
  "snd (snd A) = (0, 0, 1) \<Longrightarrow> mat_mul A mat_identity = A"
  by (cases A rule: mat_inv.cases) (simp add: mat_identity_def)


lemma mat_inv_translate_100:
  "mat_inv (mat_translate 100 100) = Inr ((1, 0, - 100), (0, 1, - 100), (0, 0, 1))"
  by (simp add: mat_translate_def)

text \<open>
  Claim C2. For a document in which the template \<^verbatim>\<open>g16532\<close> is found and has a parent
  whose local-to-global transform, the cumulative transform of the insertion parent, is
  \<^verbatim>\<open>translate(100,100)\<close>, the centre of rotation computed from the global centre
  \<open>(750, 515)\<close> is \<open>(650, 415)\<close>. This is the case in particular when the template's own
  local-to-global transform is \<^verbatim>\<open>translate(100,100)\<close> and the template element has no
  \<^verbatim>\<open>transform\<close> attribute.
\<close>

theorem local_center_translate_100:
  assumes "find_element_by_id doc TEMPLATE_ID = Some template_live"
    and "template_live \<noteq> []"
  shows "(cumulative_transform_to_parent doc (butlast template_live) = Inr (mat_translate 100 100)
           \<longrightarrow> local_center doc = Inr (template_live, (650, 415))) \<and>
         (cumulative_transform_to_element doc template_live = Inr (mat_translate 100 100) \<and>
          (\<forall>t. subtree doc template_live = Some t \<longrightarrow> get t ''transform'' = None)
           \<longrightarrow> local_center doc = Inr (template_live, (650, 415)))"
proof (intro conjI impI)
  have main: "local_center doc = Inr (template_live, (650, 415))"
    if "cumulative_transform_to_parent doc (butlast template_live) = Inr (mat_translate 100 100)"
    using that assms
    by (simp add: local_center_def parent_of_def mat_inv_translate_100
        GLOBAL_CENTER_X_def GLOBAL_CENTER_Y_def)
  {
    assume "cumulative_transform_to_parent doc (butlast template_live) =
      Inr (mat_translate 100 100)"
    then show "local_center doc = Inr (template_live, (650, 415))" by (rule main)
  }
  {
    assume h: "cumulative_transform_to_element doc template_live = Inr (mat_translate 100 100) \<and>
         (\<forall>t. subtree doc template_live = Some t \<longrightarrow> get t ''transform'' = None)"
    from assms(1) obtain t where t: "subtree doc template_live = Some t"
      using find_subtree(1) by blast
    with h have nt: "get t ''transform'' = None" by blast
    have c: "chain doc template_live = chain doc (butlast template_live) @ [t]"
      using t assms(2) by (rule chain_snoc)
    from h have "compose_chain mat_identity (chain doc (butlast template_live) @ [t]) =
        Inr (mat_translate 100 100)"
      by (simp add: cumulative_transform_to_element_def c)
    then obtain P where P: "compose_chain mat_identity (chain doc (butlast template_live)) = Inr P"
      and e: "mat_mul P mat_identity = mat_translate 100 100"
      by (auto simp: compose_chain_append nt parse_transform_def split: sum.splits)
    from P have "snd (snd P) = (0, 0, 1)"
      using chain_nonempty by (rule compose_chain_bottom)
    then have "P = mat_translate 100 100"
      using e by (simp add: mat_mul_identity_right)
    with P have "cumulative_transform_to_parent doc (butlast template_live) =
        Inr (mat_translate 100 100)"
      by (simp add: cumulative_transform_to_parent_def)
    then show "local_center doc = Inr (template_live, (650, 415))" by (rule main)
  }
qed

theorem local_center_translate_100_witness:
  "find_element_by_id
     (Elem ''svg'' [] None None
        [Elem ''g'' [(''transform'', ''translate(100,100)'')] None None
           [Elem ''g'' [(''id'', ''g16532'')] None None []]]) TEMPLATE_ID = Some [0, 0] \<and>
   cumulative_transform_to_parent
     (Elem ''svg'' [] None None
        [Elem ''g'' [(''transform'', ''translate(100,100)'')] None None
           [Elem ''g'' [(''id'', ''g16532'')] None None []]]) [0] = Inr (mat_translate 100 100) \<and>
   local_center
     (Elem ''svg'' [] None None
        [Elem ''g'' [(''transform'', ''translate(100,100)'')] None None
           [Elem ''g'' [(''id'', ''g16532'')] None None []]]) = Inr ([0, 0], (650, 415))"
proof -
  let ?doc = "Elem ''svg'' [] None None
        [Elem ''g'' [(''transform'', ''translate(100,100)'')] None None
           [Elem ''g'' [(''id'', ''g16532'')] None None []]]"
  have f: "find_element_by_id ?doc TEMPLATE_ID = Some [0, 0]" by code_simp
  have c: "cumulative_transform_to_parent ?doc [0] = Inr (mat_translate 100 100)" by code_simp
  have "local_center ?doc = Inr ([0, 0], (650, 415))"
    using local_center_translate_100 [of ?doc "[0, 0]"] f c by simp
  with f c show ?thesis by simp
qed

theorem local_center_template_transform_counterexample:
  "find_element_by_id
     (Elem ''svg'' [] None None
        [Elem ''g'' [(''id'', ''g16532''), (''transform'', ''translate(100,100)'')]
           None None []]) TEMPLATE_ID = Some [0] \<and>
   cumulative_transform_to_element
     (Elem ''svg'' [] None None
        [Elem ''g'' [(''id'', ''g16532''), (''transform'', ''translate(100,100)'')]
           None None []]) [0] = Inr (mat_translate 100 100) \<and>
   local_center
     (Elem ''svg'' [] None None
        [Elem ''g'' [(''id'', ''g16532''), (''transform'', ''translate(100,100)'')]
           None None []]) = Inr ([0], (750, 515)) \<and>
   local_center
     (Elem ''svg'' [] None None
        [Elem ''g'' [(''id'', ''g16532''), (''transform'', ''translate(100,100)'')]
           None None []]) \<noteq> Inr ([0], (650, 415))"
  by code_simp

section \<open>The deletion phase\<close>

lemma map_filter_append: "List.map_filter f (xs @ ys) = List.map_filter f xs @ List.map_filter f ys"
  by (simp add: List.map_filter_def)

lemma map_filter_concat:
  "List.map_filter f (concat xss) = concat (map (List.map_filter f) xss)"
  by (induction xss) (simp_all add: map_filter_append List.map_filter_simps)

lemma all_ids_Elem:
  "all_ids (Elem t a x l cs) =
     (case map_of a ''id'' of None \<Rightarrow> [] | Some i \<Rightarrow> [i]) @ concat (map all_ids cs)"
proof -
  have "(\<lambda>c. List.map_filter (\<lambda>e. get e ''id'') (iter c)) = all_ids"
    by (rule ext) (simp add: all_ids_def)
  then show ?thesis
    by (simp add: all_ids_def List.map_filter_simps map_filter_concat get_def comp_def
        split: option.splits)
qed

lemma find_None_iff:
  "find_element_by_id e i = None \<longleftrightarrow> i \<notin> set (all_ids e)"
  "find_in_children cs k i = None \<longleftrightarrow> (\<forall>c\<in>set cs. i \<notin> set (all_ids c))"
proof (induction e i and cs k i rule: find_element_by_id_find_in_children.induct)
  case (1 t a x l cs elem_id)
  then show ?case by (auto simp: all_ids_Elem split: option.splits)
next
  case (2 k elem_id)
  then show ?case by simp
next
  case (3 c cs k elem_id)
  then show ?case by (auto split: option.splits)
qed

lemma find_in_children_not_Nil: "find_in_children cs k i \<noteq> Some []"
  using find_subtree(2) [of cs k i "[]"] by auto

lemma find_root_iff:
  "find_element_by_id e i = Some [] \<longleftrightarrow> get e ''id'' = Some i"
  by (cases e) (auto simp: get_def find_in_children_not_Nil)


lemma concat_map_nth_split:
  "i < length cs \<Longrightarrow>
   concat (map f cs) = concat (map f (take i cs)) @ f (cs ! i) @ concat (map f (drop (Suc i) cs))"
proof -
  assume "i < length cs"
  then have "cs = take i cs @ cs ! i # drop (Suc i) cs" by (rule id_take_nth_drop)
  then have "concat (map f cs) = concat (map f (take i cs @ cs ! i # drop (Suc i) cs))" by simp
  then show ?thesis by simp
qed

lemma concat_map_update:
  "i < length cs \<Longrightarrow>
   concat (map f (cs[i := c])) = concat (map f (take i cs)) @ f c @ concat (map f (drop (Suc i) cs))"
  by (simp add: upd_conv_take_nth_drop)

lemma remove_at_ids:
  assumes "subtree e p = Some t" and "p \<noteq> []"
  shows "\<exists>e' A B. remove_at e p = Some e' \<and> all_ids e = A @ all_ids t @ B \<and>
           all_ids e' = A @ B \<and> attrib e' = attrib e"
  using assms
proof (induction e p rule: remove_at.induct)
  case (1 e)
  then show ?case by simp
next
  case (2 tg a x l cs i)
  then have i: "i < length cs" and t: "t = cs ! i" by (auto split: if_splits)
  let ?R = "case map_of a ''id'' of None \<Rightarrow> [] | Some i \<Rightarrow> [i]"
  have 1: "all_ids (Elem tg a x l cs) =
      (?R @ concat (map all_ids (take i cs))) @ all_ids t @ concat (map all_ids (drop (Suc i) cs))"
    unfolding all_ids_Elem t using concat_map_nth_split [OF i, of all_ids] by simp
  have 2: "all_ids (Elem tg a x l (take i cs @ drop (Suc i) cs)) =
      (?R @ concat (map all_ids (take i cs))) @ concat (map all_ids (drop (Suc i) cs))"
    unfolding all_ids_Elem by simp
  show ?case
  proof (intro exI conjI)
    show "remove_at (Elem tg a x l cs) [i] = Some (Elem tg a x l (take i cs @ drop (Suc i) cs))"
      using i by simp
    show "all_ids (Elem tg a x l cs) =
      (?R @ concat (map all_ids (take i cs))) @ all_ids t @ concat (map all_ids (drop (Suc i) cs))"
      by (fact 1)
    show "all_ids (Elem tg a x l (take i cs @ drop (Suc i) cs)) =
      (?R @ concat (map all_ids (take i cs))) @ concat (map all_ids (drop (Suc i) cs))"
      by (fact 2)
    show "attrib (Elem tg a x l (take i cs @ drop (Suc i) cs)) = attrib (Elem tg a x l cs)"
      by simp
  qed
next
  case (3 tg a x l cs i v va)
  then have i: "i < length cs" and s: "subtree (cs ! i) (v # va) = Some t"
    by (auto split: if_splits)
  from "3.IH" [OF i s] obtain c' A B where c': "remove_at (cs ! i) (v # va) = Some c'"
    and A: "all_ids (cs ! i) = A @ all_ids t @ B" and B: "all_ids c' = A @ B"
    by auto
  let ?R = "case map_of a ''id'' of None \<Rightarrow> [] | Some i \<Rightarrow> [i]"
  have 1: "all_ids (Elem tg a x l cs) =
      (?R @ concat (map all_ids (take i cs)) @ A) @ all_ids t @
      (B @ concat (map all_ids (drop (Suc i) cs)))"
    unfolding all_ids_Elem using concat_map_nth_split [OF i, of all_ids] A by simp
  have 2: "all_ids (Elem tg a x l (cs[i := c'])) =
      (?R @ concat (map all_ids (take i cs)) @ A) @ (B @ concat (map all_ids (drop (Suc i) cs)))"
    unfolding all_ids_Elem using concat_map_update [OF i, of all_ids c'] B by simp
  show ?case
  proof (intro exI conjI)
    show "remove_at (Elem tg a x l cs) (i # v # va) = Some (Elem tg a x l (cs[i := c']))"
      using i c' by simp
    show "all_ids (Elem tg a x l cs) =
      (?R @ concat (map all_ids (take i cs)) @ A) @ all_ids t @
      (B @ concat (map all_ids (drop (Suc i) cs)))"
      by (fact 1)
    show "all_ids (Elem tg a x l (cs[i := c'])) =
      (?R @ concat (map all_ids (take i cs)) @ A) @ (B @ concat (map all_ids (drop (Suc i) cs)))"
      by (fact 2)
    show "attrib (Elem tg a x l (cs[i := c'])) = attrib (Elem tg a x l cs)"
      by simp
  qed
qed


lemma delete_one_total: "\<exists>st'. delete_one st sid = Inr st'"
proof -
  obtain doc sp n where st: "st = (doc, sp, n)" using prod_cases3 by blast
  show ?thesis
  proof (cases "find_element_by_id doc sid")
    case None
    then show ?thesis by (simp add: delete_one_def st)
  next
    case (Some p)
    show ?thesis
    proof (cases "p = []")
      case True
      with Some show ?thesis by (simp add: delete_one_def st parent_of_def)
    next
      case False
      from Some obtain t where "subtree doc p = Some t" using find_subtree(1) by blast
      then obtain doc' where "remove_at doc p = Some doc'"
        using False remove_at_ids by blast
      with Some False show ?thesis by (simp add: delete_one_def st parent_of_def)
    qed
  qed
qed

lemma delete_phase_total: "\<exists>st'. delete_phase st sids = Inr st'"
proof (induction sids arbitrary: st)
  case Nil
  show ?case by (rule exI [of _ st]) simp
next
  case (Cons sid sids)
  obtain st1 where 1: "delete_one st sid = Inr st1" using delete_one_total by blast
  obtain st2 where "delete_phase st1 sids = Inr st2" using Cons by blast
  with 1 show ?case by (intro exI [of _ st2]) simp
qed

text \<open>An identifier is settled when no element has it, or the root has it (the root has
  no parent and is never removed).\<close>

lemma delete_one_settled:
  assumes "sid \<notin> set (all_ids (fst st)) \<or> get (fst st) ''id'' = Some sid"
  shows "delete_one st sid = Inr st"
proof -
  obtain doc sp n where st: "st = (doc, sp, n)" using prod_cases3 by blast
  from assms have "find_element_by_id doc sid = None \<or> find_element_by_id doc sid = Some []"
    unfolding st by (simp add: find_None_iff find_root_iff)
  then show ?thesis by (auto simp: delete_one_def st parent_of_def)
qed

lemma delete_phase_settled:
  assumes "\<forall>s\<in>set sids. s \<notin> set (all_ids (fst st)) \<or> get (fst st) ''id'' = Some s"
  shows "delete_phase st sids = Inr st"
  using assms by (induction sids) (simp_all add: delete_one_settled)

lemma root_id_in_all_ids: "get t ''id'' = Some s \<Longrightarrow> s \<in> set (all_ids t)"
  by (cases t) (simp add: all_ids_Elem get_def)

lemma delete_one_step:
  assumes "distinct (all_ids (fst st))" and "delete_one st sid = Inr st'"
  shows "distinct (all_ids (fst st'))"
    and "sid \<notin> set (all_ids (fst st')) \<or> get (fst st') ''id'' = Some sid"
    and "\<And>s. s \<notin> set (all_ids (fst st)) \<or> get (fst st) ''id'' = Some s \<Longrightarrow>
           s \<notin> set (all_ids (fst st')) \<or> get (fst st') ''id'' = Some s"
proof -
  obtain doc sp n where st: "st = (doc, sp, n)" using prod_cases3 by blast
  have "distinct (all_ids (fst st')) \<and>
        (sid \<notin> set (all_ids (fst st')) \<or> get (fst st') ''id'' = Some sid) \<and>
        (\<forall>s. s \<notin> set (all_ids (fst st)) \<or> get (fst st) ''id'' = Some s \<longrightarrow>
           s \<notin> set (all_ids (fst st')) \<or> get (fst st') ''id'' = Some s)"
  proof (cases "find_element_by_id doc sid")
    case None
    then have "st' = st" using assms(2) by (simp add: delete_one_def st)
    with None assms(1) show ?thesis by (simp add: st find_None_iff)
  next
    case (Some p)
    show ?thesis
    proof (cases "p = []")
      case True
      with Some have "st' = st" using assms(2) by (simp add: delete_one_def st parent_of_def)
      with Some True assms(1) show ?thesis by (simp add: st find_root_iff)
    next
      case False
      from Some obtain t where t: "subtree doc p = Some t" "get t ''id'' = Some sid"
        using find_subtree(1) by blast
      from t(1) False obtain doc' A B where r: "remove_at doc p = Some doc'"
        and a: "all_ids doc = A @ all_ids t @ B" and b: "all_ids doc' = A @ B"
        and c: "attrib doc' = attrib doc"
        using remove_at_ids by blast
      from r Some False assms(2) have st': "fst st' = doc'"
        by (auto simp: delete_one_def st parent_of_def)
      have m: "sid \<in> set (all_ids t)" using t(2) by (rule root_id_in_all_ids)
      have d: "distinct (A @ all_ids t @ B)" using assms(1) a by (simp add: st)
      have g: "get doc' ''id'' = get doc ''id''" using c by (simp add: get_def)
      from d m have "sid \<notin> set (A @ B)" by auto
      moreover from d have "distinct (A @ B)" by auto
      ultimately show ?thesis
        unfolding st' b g using a by (auto simp: st)
    qed
  qed
  then show "distinct (all_ids (fst st'))"
    and "sid \<notin> set (all_ids (fst st')) \<or> get (fst st') ''id'' = Some sid"
    and "\<And>s. s \<notin> set (all_ids (fst st)) \<or> get (fst st) ''id'' = Some s \<Longrightarrow>
           s \<notin> set (all_ids (fst st')) \<or> get (fst st') ''id'' = Some s"
    by blast+
qed

lemma delete_phase_settles:
  assumes "distinct (all_ids (fst st))" and "delete_phase st sids = Inr st'"
  shows "distinct (all_ids (fst st')) \<and>
         (\<forall>s. s \<notin> set (all_ids (fst st)) \<or> get (fst st) ''id'' = Some s \<longrightarrow>
              s \<notin> set (all_ids (fst st')) \<or> get (fst st') ''id'' = Some s) \<and>
         (\<forall>s\<in>set sids. s \<notin> set (all_ids (fst st')) \<or> get (fst st') ''id'' = Some s)"
  using assms
proof (induction sids arbitrary: st)
  case Nil
  then show ?case by simp
next
  case (Cons sid sids)
  from Cons.prems(2) obtain st1 where 1: "delete_one st sid = Inr st1"
    and 2: "delete_phase st1 sids = Inr st'"
    by (auto split: sum.splits)
  note s = delete_one_step [OF Cons.prems(1) 1]
  note ih = Cons.IH [OF s(1) 2]
  from ih s(2) have "sid \<notin> set (all_ids (fst st')) \<or> get (fst st') ''id'' = Some sid"
    by blast
  moreover from ih s(3) have "\<forall>s. s \<notin> set (all_ids (fst st)) \<or> get (fst st) ''id'' = Some s \<longrightarrow>
              s \<notin> set (all_ids (fst st')) \<or> get (fst st') ''id'' = Some s"
    by blast
  ultimately show ?case using ih by simp
qed

text \<open>
  Claim C8. The deletion phase never fails, whatever the document and the list of
  identifiers. An identifier that no element of the document has is skipped: the
  document, the reference to the parent and the counter of deletions stay as they
  are; so a phase whose identifiers are all absent changes nothing. On a document with
  pairwise distinct identifiers, running the phase again on the same list after a first
  run leaves the document unchanged and deletes nothing.
\<close>

theorem deletion_tolerates_missing:
  "(\<exists>st'. delete_phase st sids = Inr st')
   \<and> (sid \<notin> set (all_ids (fst st)) \<longrightarrow> delete_one st sid = Inr st)
   \<and> ((\<forall>s\<in>set sids. s \<notin> set (all_ids (fst st))) \<longrightarrow> delete_phase st sids = Inr st)
   \<and> (distinct (all_ids (fst st)) \<and> delete_phase st sids = Inr st1 \<longrightarrow>
        delete_phase st1 sids = Inr st1)"
proof (intro conjI impI)
  show "\<exists>st'. delete_phase st sids = Inr st'" by (rule delete_phase_total)
next
  assume "sid \<notin> set (all_ids (fst st))"
  then show "delete_one st sid = Inr st" by (intro delete_one_settled) simp
next
  assume "\<forall>s\<in>set sids. s \<notin> set (all_ids (fst st))"
  then show "delete_phase st sids = Inr st" by (intro delete_phase_settled) simp
next
  assume "distinct (all_ids (fst st)) \<and> delete_phase st sids = Inr st1"
  then have "\<forall>s\<in>set sids. s \<notin> set (all_ids (fst st1)) \<or> get (fst st1) ''id'' = Some s"
    using delete_phase_settles [of st sids st1] by blast
  then show "delete_phase st1 sids = Inr st1" by (rule delete_phase_settled)
qed


theorem deletion_tolerates_missing_witness:
  "delete_phase
     (Elem ''svg'' [] None None
        [Elem ''g'' [] None None
           [Elem ''g'' [(''id'', ''g16722'')] None None [],
            Elem ''g'' [(''id'', ''g16532'')] None None
              [Elem ''path'' [(''id'', ''p1'')] None None []]]], Live [0], 0) all_to_delete =
     Inr (Elem ''svg'' [] None None [Elem ''g'' [] None None []], Live [0], 2) \<and>
   delete_one (Elem ''svg'' [] None None [Elem ''g'' [] None None []], Live [0], 2) ''g16722'' =
     Inr (Elem ''svg'' [] None None [Elem ''g'' [] None None []], Live [0], 2) \<and>
   delete_phase (Elem ''svg'' [] None None [Elem ''g'' [] None None []], Live [0], 2)
     all_to_delete =
     Inr (Elem ''svg'' [] None None [Elem ''g'' [] None None []], Live [0], 2)"
proof -
  let ?d = "Elem ''svg'' [] None None
        [Elem ''g'' [] None None
           [Elem ''g'' [(''id'', ''g16722'')] None None [],
            Elem ''g'' [(''id'', ''g16532'')] None None
              [Elem ''path'' [(''id'', ''p1'')] None None []]]]"
  let ?e = "Elem ''svg'' [] None None [Elem ''g'' [] None None []]"
  have 1: "delete_phase (?d, Live [0], 0) all_to_delete = Inr (?e, Live [0], 2)"
    by code_simp
  have 2: "distinct (all_ids ?d)" by code_simp
  have 3: "all_ids ?e = []" by code_simp
  have a: "delete_phase (?e, Live [0], 2) all_to_delete = Inr (?e, Live [0], 2)"
    using deletion_tolerates_missing [of "(?d, Live [0], 0)" all_to_delete "''g16722''"
        "(?e, Live [0], 2)"] 1 2
    by simp
  have b: "delete_one (?e, Live [0], 2) ''g16722'' = Inr (?e, Live [0], 2)"
    using deletion_tolerates_missing [of "(?e, Live [0], 2)" all_to_delete "''g16722''"
        "(?e, Live [0], 2)"] 3
    by simp
  from 1 a b show ?thesis by simp
qed

section \<open>The stamping phase\<close>

lemma subtree_butlast:
  "subtree e p = Some t \<Longrightarrow> \<exists>u. subtree e (butlast p) = Some u"
proof (induction e p rule: subtree.induct)
  case (1 e)
  then show ?case by simp
next
  case (2 e i p)
  then show ?case by (cases "p = []") (auto split: if_splits)
qed

lemma subtree_append_at:
  "subtree e q = Some p \<Longrightarrow> subtree (append_at e q w) q = Some (append_child p w)"
proof (induction e q w rule: append_at.induct)
  case (1 e c)
  then show ?case by simp
next
  case (2 t a x l cs i p c)
  then show ?case by (auto split: if_splits)
qed

lemma deref_append_ref:
  assumes "deref doc sp = Some p" and "append_ref doc sp w = (doc', sp')"
  shows "deref doc' sp' = Some (append_child p w)"
  using assms by (cases sp) (auto simp: subtree_append_at)

text \<open>A reference that is not under the removed element stays valid.\<close>

lemma subtree_after_remove:
  assumes "remove_at e p = Some e'" and "subtree e q = Some t" and "\<not> is_prefix p q"
  shows "\<exists>t'. subtree e' (shift p q) = Some t'"
  using assms
proof (induction e p arbitrary: e' q t rule: remove_at.induct)
  case (1 e)
  then show ?case by simp
next
  case (2 tg a x l cs i)
  from "2.prems"(1) have i: "i < length cs"
    and e': "e' = Elem tg a x l (take i cs @ drop (Suc i) cs)"
    by (auto split: if_splits)
  show ?case
  proof (cases q)
    case Nil
    then show ?thesis by simp
  next
    case (Cons j r)
    with "2.prems"(2) have j: "j < length cs" and s: "subtree (cs ! j) r = Some t"
      by (auto split: if_splits)
    from "2.prems"(3) Cons have ne: "i \<noteq> j" by (simp add: is_prefix_def)
    show ?thesis
    proof (cases "i < j")
      case True
      then have nl: "\<not> j - 1 < i" and eq: "Suc i + (j - 1 - i) = j" by arith+
      have "(take i cs @ drop (Suc i) cs) ! (j - 1) = drop (Suc i) cs ! (j - 1 - i)"
        using i nl by (simp add: nth_append min_def)
      also have "\<dots> = cs ! j" using j eq by simp
      finally have "(take i cs @ drop (Suc i) cs) ! (j - 1) = cs ! j" .
      moreover have "j - 1 < length (take i cs @ drop (Suc i) cs)" using True i j by simp
      ultimately show ?thesis using True s unfolding e' Cons by simp
    next
      case False
      with ne have lt: "j < i" by simp
      then have "(take i cs @ drop (Suc i) cs) ! j = cs ! j"
        using i by (simp add: nth_append)
      with lt i s show ?thesis unfolding e' Cons by (simp add: min_def)
    qed
  qed
next
  case (3 tg a x l cs i v va)
  from "3.prems"(1) obtain c where i: "i < length cs"
    and c: "remove_at (cs ! i) (v # va) = Some c"
    and e': "e' = Elem tg a x l (cs[i := c])"
    by (auto split: if_splits option.splits)
  show ?case
  proof (cases q)
    case Nil
    then show ?thesis by simp
  next
    case (Cons j r)
    with "3.prems"(2) have j: "j < length cs" and s: "subtree (cs ! j) r = Some t"
      by (auto split: if_splits)
    show ?thesis
    proof (cases "i = j")
      case True
      from "3.prems"(3) Cons True have "\<not> is_prefix (v # va) r"
        by (simp add: is_prefix_def)
      with "3.IH" [OF i c] s True obtain t' where "subtree c (shift (v # va) r) = Some t'"
        by blast
      with True i show ?thesis unfolding e' Cons by simp
    next
      case False
      with j s show ?thesis unfolding e' Cons by simp
    qed
  qed
qed

lemma deref_delete_one:
  assumes "delete_one (doc, sp, n) sid = Inr (doc', sp', n')" and "deref doc sp \<noteq> None"
  shows "deref doc' sp' \<noteq> None"
proof (cases "find_element_by_id doc sid")
  case None
  with assms show ?thesis by (simp add: delete_one_def)
next
  case (Some p)
  show ?thesis
  proof (cases "p = []")
    case True
    with Some assms show ?thesis by (simp add: delete_one_def parent_of_def)
  next
    case False
    with Some assms(1) obtain d where r: "remove_at doc p = Some d"
      and d: "doc' = d" "sp' = track_removal doc p sp"
      by (auto simp: delete_one_def parent_of_def split: option.splits)
    show ?thesis
    proof (cases sp)
      case (Detached e)
      then show ?thesis using d by simp
    next
      case (Live q)
      with assms(2) obtain t where t: "subtree doc q = Some t" by auto
      show ?thesis
      proof (cases "is_prefix p q")
        case True
        with Live t d show ?thesis by simp
      next
        case False
        with r t obtain t' where "subtree d (shift p q) = Some t'"
          using subtree_after_remove by blast
        with False Live d show ?thesis by simp
      qed
    qed
  qed
qed

lemma deref_delete_phase:
  assumes "delete_phase st sids = Inr st'" and "deref (fst st) (fst (snd st)) \<noteq> None"
  shows "deref (fst st') (fst (snd st')) \<noteq> None"
  using assms
proof (induction sids arbitrary: st)
  case Nil
  then show ?case by simp
next
  case (Cons sid sids)
  from Cons.prems(1) obtain st1 where 1: "delete_one st sid = Inr st1"
    and 2: "delete_phase st1 sids = Inr st'"
    by (auto split: sum.splits)
  obtain doc sp n where st: "st = (doc, sp, n)" using prod_cases3 by blast
  obtain doc1 sp1 n1 where st1: "st1 = (doc1, sp1, n1)" using prod_cases3 by blast
  from 1 Cons.prems(2) have "deref doc1 sp1 \<noteq> None"
    unfolding st st1 using deref_delete_one by auto
  then show ?case using Cons.IH [OF 2] by (simp add: st1)
qed


lemma map_of_dict_set: "map_of (dict_set k v a) = (map_of a)(k \<mapsto> v)"
  by (induction a) (auto simp: fun_eq_iff)

lemma dict_set_keys: "map_of a k \<noteq> None \<Longrightarrow> map fst (dict_set k v a) = map fst a"
  by (induction a) auto

lemma set_attr_same:
  assumes "get snap k \<noteq> None"
  shows "tag (set_attr snap k v) = tag snap \<and> children (set_attr snap k v) = children snap \<and>
         elem_text (set_attr snap k v) = elem_text snap \<and>
         elem_tail (set_attr snap k v) = elem_tail snap \<and>
         map fst (attrib (set_attr snap k v)) = map fst (attrib snap) \<and>
         get (set_attr snap k v) k = Some v \<and>
         (\<forall>k'. k' \<noteq> k \<longrightarrow> get (set_attr snap k v) k' = get snap k')"
  using assms by (cases snap) (simp add: get_def map_of_dict_set dict_set_keys)

lemma append_child_sel:
  "append_child p w = Elem (tag p) (attrib p) (elem_text p) (elem_tail p) (children p @ [w])"
  by (cases p) simp

lemma stamp_one_effect:
  assumes "deref doc sp = Some p"
  shows "\<exists>doc' sp' ids' sid wid.
           stamp_one snap cx cy (doc, sp, ids) i = (doc', sp', ids') \<and>
           deref doc' sp' = Some (append_child p
             (Elem (''{'' @ SVG_NS @ ''}g'')
                [(''id'', wid), (''transform'', wrapper_transform i cx cy)]
                None None [set_attr snap ''id'' sid]))"
proof -
  define sid where "sid = star_id_loop ids i (TEMPLATE_ID @ ''_new'' @ fmt_02d i) 2"
  define wid where "wid = wrapper_id_loop (sid # ids) (sid @ ''_wrap'')"
  define w where "w = Elem (''{'' @ SVG_NS @ ''}g'')
                [(''id'', wid), (''transform'', wrapper_transform i cx cy)]
                None None [set_attr snap ''id'' sid]"
  obtain doc' sp' where a: "append_ref doc sp w = (doc', sp')" by (cases "append_ref doc sp w")
  then have "stamp_one snap cx cy (doc, sp, ids) i = (doc', sp', wid # sid # ids)"
    by (simp add: stamp_one_def Let_def sid_def wid_def w_def)
  moreover have "deref doc' sp' = Some (append_child p w)"
    using assms a by (rule deref_append_ref)
  ultimately show ?thesis unfolding w_def by blast
qed

lemma stamp_fold:
  assumes "deref doc sp = Some p"
  shows "\<exists>doc' sp' ids' ws.
           foldl (stamp_one snap cx cy) (doc, sp, ids) js = (doc', sp', ids') \<and>
           deref doc' sp' =
             Some (Elem (tag p) (attrib p) (elem_text p) (elem_tail p) (children p @ ws)) \<and>
           length ws = length js \<and>
           (\<forall>k<length js. \<exists>sid wid.
              ws ! k = Elem (''{'' @ SVG_NS @ ''}g'')
                [(''id'', wid), (''transform'', wrapper_transform (js ! k) cx cy)]
                None None [set_attr snap ''id'' sid])"
  using assms
proof (induction js arbitrary: doc sp ids p)
  case Nil
  then show ?case by (cases p) auto
next
  case (Cons j js)
  from stamp_one_effect [OF Cons.prems, of snap cx cy ids j]
  obtain doc1 sp1 ids1 sid wid where
    1: "stamp_one snap cx cy (doc, sp, ids) j = (doc1, sp1, ids1)" and
    2: "deref doc1 sp1 = Some (append_child p
             (Elem (''{'' @ SVG_NS @ ''}g'')
                [(''id'', wid), (''transform'', wrapper_transform j cx cy)]
                None None [set_attr snap ''id'' sid]))"
    by blast
  let ?w = "Elem (''{'' @ SVG_NS @ ''}g'')
                [(''id'', wid), (''transform'', wrapper_transform j cx cy)]
                None None [set_attr snap ''id'' sid]"
  from Cons.IH [OF 2, of ids1] obtain doc' sp' ids' ws where
    f: "foldl (stamp_one snap cx cy) (doc1, sp1, ids1) js = (doc', sp', ids')" and
    d: "deref doc' sp' = Some (Elem (tag (append_child p ?w)) (attrib (append_child p ?w))
          (elem_text (append_child p ?w)) (elem_tail (append_child p ?w))
          (children (append_child p ?w) @ ws))" and
    l: "length ws = length js" and
    w: "\<forall>k<length js. \<exists>sid wid.
              ws ! k = Elem (''{'' @ SVG_NS @ ''}g'')
                [(''id'', wid), (''transform'', wrapper_transform (js ! k) cx cy)]
                None None [set_attr snap ''id'' sid]"
    by blast
  have d': "deref doc' sp' =
      Some (Elem (tag p) (attrib p) (elem_text p) (elem_tail p) (children p @ (?w # ws)))"
    using d by (simp add: append_child_sel)
  have w': "\<forall>k<length (j # js). \<exists>sid wid.
              (?w # ws) ! k = Elem (''{'' @ SVG_NS @ ''}g'')
                [(''id'', wid), (''transform'', wrapper_transform ((j # js) ! k) cx cy)]
                None None [set_attr snap ''id'' sid]"
  proof (intro allI impI)
    fix k assume "k < length (j # js)"
    then show "\<exists>sid wid.
              (?w # ws) ! k = Elem (''{'' @ SVG_NS @ ''}g'')
                [(''id'', wid), (''transform'', wrapper_transform ((j # js) ! k) cx cy)]
                None None [set_attr snap ''id'' sid]"
      using w by (cases k) auto
  qed
  show ?case
  proof (intro exI conjI)
    show "foldl (stamp_one snap cx cy) (doc, sp, ids) (j # js) = (doc', sp', ids')"
      using 1 f by simp
    show "deref doc' sp' =
      Some (Elem (tag p) (attrib p) (elem_text p) (elem_tail p) (children p @ (?w # ws)))"
      by (fact d')
    show "length (?w # ws) = length (j # js)" using l by simp
    show "\<forall>k<length (j # js). \<exists>sid wid.
              (?w # ws) ! k = Elem (''{'' @ SVG_NS @ ''}g'')
                [(''id'', wid), (''transform'', wrapper_transform ((j # js) ! k) cx cy)]
                None None [set_attr snap ''id'' sid]"
      by (fact w')
  qed
qed


text \<open>
  Claim C5. When the run does not abort, that is, the template \<^verbatim>\<open>g16532\<close> is found, has
  a parent, and the cumulative transform of that parent parses and has a determinant of
  absolute value at least \<open>1e-12\<close>, then \<^verbatim>\<open>main\<close> returns, and the element that was
  the template's parent has, behind the children the deletion phase left it, exactly 27
  new children. The \<open>i\<close>-th is a group element with an \<^verbatim>\<open>id\<close> and the rotation of index
  \<open>i\<close> about the computed centre, and its only child is a copy of the template as it was
  before the deletions: same tag, text, tail, children and attribute names, and the same
  attribute values except for \<^verbatim>\<open>id\<close>.
\<close>

theorem regenerates_27_wrappers:
  assumes "find_element_by_id doc TEMPLATE_ID = Some tp" and "tp \<noteq> []"
    and "cumulative_transform_to_parent doc (butlast tp) = Inr P"
    and "1 / 10 ^ 12 \<le> \<bar>det2 P\<bar>"
  shows "\<exists>snap st1 parent1 r ws.
           subtree doc tp = Some snap \<and>
           delete_phase (doc, Live (butlast tp), 0) all_to_delete = Inr st1 \<and>
           deref (fst st1) (fst (snd st1)) = Some parent1 \<and>
           main doc = Inr r \<and>
           deref (out_doc r) (out_parent r) =
             Some (Elem (tag parent1) (attrib parent1) (elem_text parent1) (elem_tail parent1)
                     (children parent1 @ ws)) \<and>
           length ws = 27 \<and>
           (\<forall>i<27. \<exists>sid wid copy.
              ws ! i = Elem (''{'' @ SVG_NS @ ''}g'')
                [(''id'', wid),
                 (''transform'', wrapper_transform i (fst (out_center r)) (snd (out_center r)))]
                None None [copy] \<and>
              copy = set_attr snap ''id'' sid \<and>
              tag copy = tag snap \<and> children copy = children snap \<and>
              elem_text copy = elem_text snap \<and> elem_tail copy = elem_tail snap \<and>
              map fst (attrib copy) = map fst (attrib snap) \<and>
              (\<forall>k. k \<noteq> ''id'' \<longrightarrow> get copy k = get snap k))"
proof -
  from assms(1) obtain snap where snap: "subtree doc tp = Some snap"
    and sid: "get snap ''id'' = Some TEMPLATE_ID"
    using find_subtree(1) by blast
  from assms(4) obtain G where G: "mat_inv P = Inr G"
    using mat_inv_succeeds_iff [of P] by blast
  obtain cx cy where c: "mat_apply G GLOBAL_CENTER_X GLOBAL_CENTER_Y = (cx, cy)"
    by (cases "mat_apply G GLOBAL_CENTER_X GLOBAL_CENTER_Y")
  have lc: "local_center doc = Inr (tp, cx, cy)"
    using assms(1-3) G c by (simp add: local_center_def parent_of_def)
  obtain st1 where st1: "delete_phase (doc, Live (butlast tp), 0) all_to_delete = Inr st1"
    using delete_phase_total by blast
  obtain doc1 sp1 n where s1: "st1 = (doc1, sp1, n)" using prod_cases3 by blast
  from snap have "deref doc (Live (butlast tp)) \<noteq> None"
    using subtree_butlast [of doc tp snap] by auto
  with st1 have "deref (fst st1) (fst (snd st1)) \<noteq> None"
    using deref_delete_phase [of "(doc, Live (butlast tp), 0)" all_to_delete st1] by simp
  then obtain parent1 where p1: "deref doc1 sp1 = Some parent1" by (auto simp: s1)
  from stamp_fold [OF p1, of snap cx cy "find_all_ids doc1" "[0..<TOTAL_STARS]"]
  obtain doc2 sp2 ids2 ws where
    f: "stamp_phase snap cx cy (doc1, sp1, find_all_ids doc1) = (doc2, sp2, ids2)" and
    d: "deref doc2 sp2 = Some (Elem (tag parent1) (attrib parent1) (elem_text parent1)
          (elem_tail parent1) (children parent1 @ ws))" and
    l: "length ws = 27" and
    w: "\<forall>k<27. \<exists>sid wid.
              ws ! k = Elem (''{'' @ SVG_NS @ ''}g'')
                [(''id'', wid), (''transform'', wrapper_transform ([0..<27] ! k) cx cy)]
                None None [set_attr snap ''id'' sid]"
    unfolding stamp_phase_def TOTAL_STARS_def by auto
  let ?r = "\<lparr>out_doc = doc2, out_parent = sp2, out_deleted = n, out_center = (cx, cy)\<rparr>"
  have m: "main doc = Inr ?r"
    using lc snap st1 f by (simp add: main_def s1)
  have w': "\<forall>i<27. \<exists>sid wid copy.
              ws ! i = Elem (''{'' @ SVG_NS @ ''}g'')
                [(''id'', wid),
                 (''transform'', wrapper_transform i (fst (out_center ?r)) (snd (out_center ?r)))]
                None None [copy] \<and>
              copy = set_attr snap ''id'' sid \<and>
              tag copy = tag snap \<and> children copy = children snap \<and>
              elem_text copy = elem_text snap \<and> elem_tail copy = elem_tail snap \<and>
              map fst (attrib copy) = map fst (attrib snap) \<and>
              (\<forall>k. k \<noteq> ''id'' \<longrightarrow> get copy k = get snap k)"
  proof (intro allI impI)
    fix i :: nat assume i: "i < 27"
    with w obtain s' wid where e: "ws ! i = Elem (''{'' @ SVG_NS @ ''}g'')
                [(''id'', wid), (''transform'', wrapper_transform ([0..<27] ! i) cx cy)]
                None None [set_attr snap ''id'' s']"
      by blast
    have n: "[0..<27] ! i = i" using i by simp
    have g: "get snap ''id'' \<noteq> None" using sid by simp
    show "\<exists>sid wid copy.
              ws ! i = Elem (''{'' @ SVG_NS @ ''}g'')
                [(''id'', wid),
                 (''transform'', wrapper_transform i (fst (out_center ?r)) (snd (out_center ?r)))]
                None None [copy] \<and>
              copy = set_attr snap ''id'' sid \<and>
              tag copy = tag snap \<and> children copy = children snap \<and>
              elem_text copy = elem_text snap \<and> elem_tail copy = elem_tail snap \<and>
              map fst (attrib copy) = map fst (attrib snap) \<and>
              (\<forall>k. k \<noteq> ''id'' \<longrightarrow> get copy k = get snap k)"
      using e n set_attr_same [OF g, of s'] by (intro exI [of _ s'] exI [of _ wid]) simp
  qed
  show ?thesis
  proof (intro exI conjI)
    show "subtree doc tp = Some snap" by (fact snap)
    show "delete_phase (doc, Live (butlast tp), 0) all_to_delete = Inr st1" by (fact st1)
    show "deref (fst st1) (fst (snd st1)) = Some parent1" using p1 by (simp add: s1)
    show "main doc = Inr ?r" by (fact m)
    show "deref (out_doc ?r) (out_parent ?r) =
             Some (Elem (tag parent1) (attrib parent1) (elem_text parent1) (elem_tail parent1)
                     (children parent1 @ ws))"
      using d by simp
    show "length ws = 27" by (fact l)
    show "\<forall>i<27. \<exists>sid wid copy.
              ws ! i = Elem (''{'' @ SVG_NS @ ''}g'')
                [(''id'', wid),
                 (''transform'', wrapper_transform i (fst (out_center ?r)) (snd (out_center ?r)))]
                None None [copy] \<and>
              copy = set_attr snap ''id'' sid \<and>
              tag copy = tag snap \<and> children copy = children snap \<and>
              elem_text copy = elem_text snap \<and> elem_tail copy = elem_tail snap \<and>
              map fst (attrib copy) = map fst (attrib snap) \<and>
              (\<forall>k. k \<noteq> ''id'' \<longrightarrow> get copy k = get snap k)"
      by (fact w')
  qed
qed

end
